theory Spec2Isabelle
  imports Main
begin

section \<open>Values shared by the pool engine\<close>

text \<open>
  Errors thrown by the code are values.  Every JavaScript error carries a message;
  \<open>PreRequisiteCheckError\<close> also carries the field list of the describe result.
\<close>

record PicklistValue =
  pvalue :: string
  active :: bool

record Field =
  name :: string
  picklistValues :: "PicklistValue list"

record DescribeResult =
  fields' :: "Field list"

datatype error =
    TypeError string
  | Error string
  | RemoteError string
  | PreRequisiteCheckError string "Field list"

fun message :: "error \<Rightarrow> string" where
  "message (TypeError m) = m"
| "message (Error m) = m"
| "message (RemoteError m) = m"
| "message (PreRequisiteCheckError m fs) = m"

text \<open>
  An optional string property of a JavaScript object: \<open>None\<close> is \<open>undefined\<close>/\<open>null\<close>.
  \<open>truthy\<close> is the coercion done by \<open>!x\<close> and \<open>x ? a : b\<close>: the absent value and the
  empty string are falsy.  \<open>template\<close> is the text a template literal \<open>${x}\<close> inserts,
  the absent value read as \<open>undefined\<close>.  Strings are ASCII, so that a character is one
  code unit of the JavaScript string.
\<close>

fun truthy :: "string option \<Rightarrow> bool" where
  "truthy None = False"
| "truthy (Some s) = (s \<noteq> [])"

fun template :: "string option \<Rightarrow> string" where
  "template None = ''undefined''"
| "template (Some s) = s"

text \<open>\<open>Array.prototype.join\<close> on an array of strings.\<close>

fun join :: "string \<Rightarrow> string list \<Rightarrow> string" where
  "join sep [] = []"
| "join sep [x] = x"
| "join sep (x # y # ys) = x @ sep @ join sep (y # ys)"

text \<open>The \<open>ScratchOrg\<close> interface: every property is optional.\<close>

record ScratchOrg =
  alias' :: "string option"
  orgId :: "string option"
  username :: "string option"
  signupEmail :: "string option"
  loginURL :: "string option"
  password :: "string option"
  sfdxAuthUrl :: "string option"
  recordId :: "string option"
  tag :: "string option"
  expityDate :: "string option"
  status :: "string option"

definition emptyScratchOrg :: ScratchOrg where
  "emptyScratchOrg =
     \<lparr>alias' = None, orgId = None, username = None, signupEmail = None, loginURL = None,
      password = None, sfdxAuthUrl = None, recordId = None, tag = None, expityDate = None,
      status = None\<rparr>"

text \<open>A row of a query over \<open>ScratchOrgInfo\<close>, and the result of \<open>conn.query\<close>.\<close>

record ScratchOrgInfo =
  Id' :: "string option"
  Pooltag__c :: "string option"
  CreatedDate :: "string option"
  ScratchOrg :: "string option"
  ExpirationDate :: "string option"
  SignupUsername :: "string option"
  SignupEmail :: "string option"
  Password__c :: "string option"
  Allocation_status__c :: "string option"
  LoginUrl :: "string option"
  SfdxAuthUrl__c :: "string option"

record 'r QueryResult =
  records :: "'r list"
  totalSize :: nat

text \<open>
  A remote endpoint of the hub connection (\<open>query\<close>, \<open>describe\<close>, \<open>update\<close>,
  \<open>del\<close>): the outcome of a call depends on how many calls were issued before it and
  on the request.  The state of an endpoint is the log of the requests issued so far.
\<close>

type_synonym ('q, 'r) endpoint = "nat \<Rightarrow> 'q \<Rightarrow> error + 'r"

definition call :: "('q, 'r) endpoint \<Rightarrow> 'q \<Rightarrow> 'q list \<Rightarrow> (error + 'r) \<times> 'q list" where
  "call remote request log = (remote (length log) request, log @ [request])"

section \<open>The retry wrapper\<close>

text \<open>
  \<open>retry\<close> is the \<open>async-retry\<close> package named in \<open>package.json\<close>.  It runs the
  operation, and when the operation throws it runs it again, at most \<open>retries\<close> more
  times (the option counts the retries after the first attempt, so \<open>retries: 3\<close> allows
  four attempts); the first attempt that returns gives the result.  When the last attempt throws,
  the promise is rejected with \<open>mainError\<close>: the error whose message occurred most often
  among the attempts, the latest one on a tie.

  Before each retry the wrapper waits: at least \<open>minTimeout\<close> milliseconds, a minimum
  that the package lets grow with the attempt and with a random factor.  The model keeps
  the minimum: together with the result, \<open>retry\<close> gives the list of the waits it made,
  one entry \<open>minTimeout\<close> per retry, in order.

  The operation is a state transformer: the state holds whatever the closure mutates and
  the log of the remote calls issued so far.
\<close>

record RetryOptions =
  retries :: nat
  minTimeout :: nat

fun mainError_loop ::
  "error list \<Rightarrow> (string \<Rightarrow> nat) \<Rightarrow> error option \<Rightarrow> nat \<Rightarrow> error option" where
  "mainError_loop [] counts mainErr mainErrorCount = mainErr"
| "mainError_loop (e # es) counts mainErr mainErrorCount =
     (let count = counts (message e) + 1;
          counts' = counts(message e := count)
      in if count \<ge> mainErrorCount then mainError_loop es counts' (Some e) count
         else mainError_loop es counts' mainErr mainErrorCount)"

definition mainError :: "error list \<Rightarrow> error option" where
  "mainError errors = mainError_loop errors (\<lambda>_. 0) None 0"

fun retry_attempts ::
  "nat \<Rightarrow> nat \<Rightarrow> error list \<Rightarrow> nat list \<Rightarrow> ('s \<Rightarrow> (error + 'a) \<times> 's) \<Rightarrow> 's
     \<Rightarrow> ((error + 'a) \<times> nat list) \<times> 's" where
  "retry_attempts 0 timeout errors waits fn s =
     (case fn s of
        (Inr v, s') \<Rightarrow> ((Inr v, waits), s')
      | (Inl err, s') \<Rightarrow>
          (case mainError (errors @ [err]) of
             Some m \<Rightarrow> ((Inl m, waits), s')
           | None \<Rightarrow> ((Inl err, waits), s')))"
| "retry_attempts (Suc left) timeout errors waits fn s =
     (case fn s of
        (Inr v, s') \<Rightarrow> ((Inr v, waits), s')
      | (Inl err, s') \<Rightarrow>
          retry_attempts left timeout (errors @ [err]) (waits @ [timeout]) fn s')"

definition retry ::
  "('s \<Rightarrow> (error + 'a) \<times> 's) \<Rightarrow> RetryOptions \<Rightarrow> 's \<Rightarrow> ((error + 'a) \<times> nat list) \<times> 's" where
  "retry fn opts s = retry_attempts (retries opts) (minTimeout opts) [] [] fn s"

section \<open>Pool listing\<close>

text \<open>
  \<open>PoolListImpl.execute\<close>, from the query result on.  The static flag
  \<open>ScratchOrgUtils.isNewVersionCompatible\<close> is a parameter.  \<open>soDetail\<close> is the body of
  the loop over \<open>results.records\<close>.
\<close>

definition soDetail :: "bool \<Rightarrow> ScratchOrgInfo \<Rightarrow> ScratchOrg" where
  "soDetail isNewVersionCompatible element =
     emptyScratchOrg
       \<lparr>tag := Pooltag__c element,
        orgId := ScratchOrg element,
        loginURL := LoginUrl element,
        username := SignupUsername element,
        password := Password__c element,
        expityDate := ExpirationDate element,
        status :=
          (if Allocation_status__c element = Some ''Assigned'' then Some ''In use''
           else if (isNewVersionCompatible \<and> Allocation_status__c element = Some ''Available'')
                   \<or> (\<not> isNewVersionCompatible \<and> \<not> truthy (Allocation_status__c element))
                then Some ''Available''
           else Some ''Provisioning in progress'')\<rparr>"

definition execute :: "bool \<Rightarrow> ScratchOrgInfo QueryResult \<Rightarrow> ScratchOrg list" where
  "execute isNewVersionCompatible results =
     (if length (records results) > 0
      then map (soDetail isNewVersionCompatible) (records results)
      else [])"

text \<open>
  \<open>List.run\<close>, from the result of \<open>execute\<close> on: the password is deleted unless the
  \<open>mypool\<close> flag is set, the three status classes are counted, and the output object is
  built.
\<close>

record ListOutput =
  total :: nat
  inuse :: nat
  unused :: nat
  inprovision :: nat
  scratchOrgDetails :: "ScratchOrg list"

definition run :: "bool \<Rightarrow> ScratchOrg list \<Rightarrow> ListOutput" where
  "run mypool result0 =
     (let result = (if \<not> mypool \<and> length result0 > 0
                    then map (\<lambda>element. element\<lparr>password := None\<rparr>) result0
                    else result0);
          scratchOrgInuse = filter (\<lambda>element. status element = Some ''In use'') result;
          scratchOrgNotInuse = filter (\<lambda>element. status element = Some ''Available'') result;
          scratchOrgInProvision =
            filter (\<lambda>element. status element = Some ''Provisioning in progress'') result
      in \<lparr>total = length scratchOrgInuse + length scratchOrgNotInuse
                    + length scratchOrgInProvision,
          inuse = length scratchOrgInuse,
          unused = length scratchOrgNotInuse,
          inprovision = length scratchOrgInProvision,
          scratchOrgDetails = result\<rparr>)"

section \<open>Prerequisite check\<close>

text \<open>
  The static members of \<open>PreRequisiteCheck\<close>.  A process starts in \<open>initialStatics\<close>.
\<close>

record Statics =
  isPrerequisiteChecked :: bool
  isPrerequisiteMet :: bool
  describeResult :: "DescribeResult option"

definition initialStatics :: Statics where
  "initialStatics =
     \<lparr>isPrerequisiteChecked = False, isPrerequisiteMet = False, describeResult = None\<rparr>"

definition expectedValues :: "string list" where
  "expectedValues = [''In Progress'', ''Available'', ''Allocate'', ''Assigned'']"

definition prerequisiteMessage :: string where
  "prerequisiteMessage =
     ''Required Prerequisite values in ScratchOrgInfo is missing in the DevHub'' @
     ''For more information Please refer https://github.com/Accenture/SFPLogger/blob/main/src_saleforce_packages/scratchorgpool/force-app/main/default/objects/ScratchOrgInfo/fields/Allocation_status__c.field-meta.xml \<newline>''"

text \<open>
  The loop over \<open>describeResult.fields\<close>, with its \<open>break\<close>: the scan ends at the
  first field named \<open>Allocation_status__c\<close> that has four picklist values.  The two
  locals \<open>sfdxAuthUrlFieldExists\<close> and \<open>availableValues\<close> are threaded through.
\<close>

fun scanFields :: "Field list \<Rightarrow> bool \<Rightarrow> string list \<Rightarrow> bool \<times> string list" where
  "scanFields [] sfdxAuthUrlFieldExists availableValues =
     (sfdxAuthUrlFieldExists, availableValues)"
| "scanFields (field # rest) sfdxAuthUrlFieldExists availableValues =
     (let exists = (if name field = ''SfdxAuthUrl__c'' then True else sfdxAuthUrlFieldExists)
      in if name field = ''Allocation_status__c'' \<and> length (picklistValues field) = 4
         then (exists, availableValues @ map pvalue (filter active (picklistValues field)))
         else scanFields rest exists availableValues)"

text \<open>
  One run of the closure given to \<open>retry\<close>.  Its state is the statics, the log of
  describe calls, and the two locals, which live outside the closure and so survive an
  attempt that throws.  A describe result that is falsy is \<open>None\<close>.
\<close>

type_synonym checkState = "Statics \<times> unit list \<times> bool \<times> string list"

definition describeAttempt ::
  "(unit, DescribeResult option) endpoint \<Rightarrow> checkState \<Rightarrow> (error + unit) \<times> checkState" where
  "describeAttempt describe = (\<lambda>(st, log, sfdxAuthUrlFieldExists, availableValues).
     case call describe () log of
       (Inl e, log') \<Rightarrow> (Inl e, (st, log', sfdxAuthUrlFieldExists, availableValues))
     | (Inr dr, log') \<Rightarrow>
         (let st' = st\<lparr>describeResult := dr\<rparr> in
          case dr of
            None \<Rightarrow> (Inr (), (st', log', sfdxAuthUrlFieldExists, availableValues))
          | Some d \<Rightarrow>
              (case scanFields (fields' d) sfdxAuthUrlFieldExists availableValues of
                 (exists, available) \<Rightarrow> (Inr (), (st', log', exists, available)))))"

text \<open>The final \<open>if (!PreRequisiteCheck.isPrerequisiteMet) throw ...\<close>.\<close>

definition throwUnlessMet :: "Statics \<Rightarrow> error + unit" where
  "throwUnlessMet st =
     (if \<not> isPrerequisiteMet st
      then (case describeResult st of
              None \<Rightarrow> Inl (TypeError ''Cannot read property 'fields' of undefined'')
            | Some d \<Rightarrow> Inl (PreRequisiteCheckError prerequisiteMessage (fields' d)))
      else Inr ())"

text \<open>
  \<open>checkForPrerequisites\<close>: the verdict, the waits of the retry wrapper, and the
  statics and the log of describe calls afterwards.
\<close>

definition checkForPrerequisites ::
  "(unit, DescribeResult option) endpoint \<Rightarrow> Statics \<times> unit list
     \<Rightarrow> ((error + unit) \<times> nat list) \<times> Statics \<times> unit list" where
  "checkForPrerequisites describe = (\<lambda>(st, log).
     if \<not> isPrerequisiteChecked st
     then (case retry (describeAttempt describe) \<lparr>retries = 3, minTimeout = 30000\<rparr>
                  (st, log, False, []) of
             ((Inl e, waits), (st1, log1, exists, available)) \<Rightarrow> ((Inl e, waits), (st1, log1))
           | ((Inr u, waits), (st1, log1, sfdxAuthUrlFieldExists, availableValues)) \<Rightarrow>
               (let st2 = st1\<lparr>isPrerequisiteChecked := True\<rparr>;
                    statusValuesAvailable =
                      (length (filter (\<lambda>item. item \<notin> set availableValues)
                                 expectedValues) = 0);
                    st3 = (if sfdxAuthUrlFieldExists \<and> statusValuesAvailable
                           then st2\<lparr>isPrerequisiteMet := True\<rparr> else st2)
                in ((throwUnlessMet st3, waits), (st3, log1))))
     else ((throwUnlessMet st, []), (st, log)))"

text \<open>Several invocations in one process, one after the other; the verdicts in order.\<close>

fun invocations ::
  "nat \<Rightarrow> (unit, DescribeResult option) endpoint \<Rightarrow> Statics \<times> unit list
     \<Rightarrow> (error + unit) list \<times> Statics \<times> unit list" where
  "invocations 0 describe s = ([], s)"
| "invocations (Suc n) describe s =
     (case checkForPrerequisites describe s of
        ((verdict, waits), s') \<Rightarrow>
          (case invocations n describe s' of (verdicts, s'') \<Rightarrow> (verdict # verdicts, s'')))"

section \<open>Scratch org utilities\<close>

subsection \<open>Queries of the pool\<close>

definition ORDER_BY_FILTER :: string where
  "ORDER_BY_FILTER = '' ORDER BY CreatedDate ASC''"

text \<open>
  The query text built inside the closure of \<open>getScratchOrgsByTag\<close>.  \<open>poolTag\<close> is
  the parameter \<open>tag\<close>, absent when it is \<open>null\<close> or \<open>undefined\<close>; \<open>hubUsername\<close> is
  \<open>hubOrg.getUsername()\<close>.
\<close>

definition getScratchOrgsByTag_query ::
  "string option \<Rightarrow> string option \<Rightarrow> bool \<Rightarrow> bool \<Rightarrow> string" where
  "getScratchOrgsByTag_query poolTag hubUsername isMyPool unAssigned =
     (let query0 =
            (if poolTag \<noteq> None
             then ''SELECT Pooltag__c, Id,  CreatedDate, ScratchOrg, ExpirationDate, SignupUsername, SignupEmail, Password__c, Allocation_status__c,LoginUrl,SfdxAuthUrl__c FROM ScratchOrgInfo WHERE Pooltag__c = ''
                  @ [CHR 0x27] @ template poolTag @ [CHR 0x27] @ ''  AND Status = 'Active' ''
             else ''SELECT Pooltag__c, Id,  CreatedDate, ScratchOrg, ExpirationDate, SignupUsername, SignupEmail, Password__c, Allocation_status__c,LoginUrl,SfdxAuthUrl__c FROM ScratchOrgInfo WHERE Pooltag__c != null  AND Status = 'Active' '');
          query1 =
            (if isMyPool
             then query0 @ '' AND createdby.username = '' @ [CHR 0x27] @ template hubUsername
                  @ [CHR 0x27] @ '' ''
             else query0);
          query2 =
            (if unAssigned
             then query1 @
                  ''AND ( Allocation_status__c ='Available' OR Allocation_status__c = 'In Progress' ) ''
             else query1)
      in query2 @ ORDER_BY_FILTER)"

definition getScratchOrgsByTag ::
  "string option \<Rightarrow> string option \<Rightarrow> bool \<Rightarrow> bool
     \<Rightarrow> (string, ScratchOrgInfo QueryResult) endpoint \<Rightarrow> string list
     \<Rightarrow> ((error + ScratchOrgInfo QueryResult) \<times> nat list) \<times> string list" where
  "getScratchOrgsByTag poolTag hubUsername isMyPool unAssigned hubConn =
     retry (\<lambda>log. call hubConn (getScratchOrgsByTag_query poolTag hubUsername isMyPool unAssigned) log)
       \<lparr>retries = 3, minTimeout = 3000\<rparr>"

text \<open>
  \<open>QueryHelper.query\<close>.  The connection has two query endpoints, the plain one and the
  tooling one, each with its log.
\<close>

definition QueryHelper_query ::
  "string \<Rightarrow> (string, 'r QueryResult) endpoint \<Rightarrow> (string, 'r QueryResult) endpoint \<Rightarrow> bool
     \<Rightarrow> string list \<times> string list
     \<Rightarrow> ((error + 'r list) \<times> nat list) \<times> string list \<times> string list" where
  "QueryHelper_query query conn_query conn_tooling_query isTooling =
     retry (\<lambda>(log, toolingLog).
              if isTooling
              then (case call conn_tooling_query query toolingLog of
                      (Inl e, toolingLog') \<Rightarrow> (Inl e, (log, toolingLog'))
                    | (Inr result, toolingLog') \<Rightarrow> (Inr (records result), (log, toolingLog')))
              else (case call conn_query query log of
                      (Inl e, log') \<Rightarrow> (Inl e, (log', toolingLog))
                    | (Inr result, log') \<Rightarrow> (Inr (records result), (log', toolingLog))))
       \<lparr>retries = 3, minTimeout = 2000\<rparr>"

subsection \<open>Mutations\<close>

text \<open>
  What \<open>update\<close> resolves to: nothing, the result for one record with its
  \<open>success\<close> flag, or an array of results.
\<close>

datatype UpdateResult = NoResult | RecordResult bool | RecordResults "bool list"

text \<open>
  The values \<open>soInfo\<close> can be: its type is \<open>any\<close>.  \<open>JSCircular\<close> stands for a
  reference from inside an object or array back to one that contains it.
\<close>

datatype jsvalue =
    JSUndefined
  | JSNull
  | JSBoolean bool
  | JSNumber int
  | JSString string
  | JSBigInt int
  | JSArray "jsvalue list"
  | JSObject "(string \<times> jsvalue) list"
  | JSCircular

text \<open>
  \<open>JSON.stringify\<close>, as far as it can throw: a \<open>BigInt\<close> and a circular structure
  make it throw a \<open>TypeError\<close>, the first one met in the order of the elements and
  properties; every other value is serialised.  The text it returns only goes to the
  trace log and is left out.
\<close>

fun JSON_stringify :: "jsvalue \<Rightarrow> error + unit"
  and stringify_elements :: "jsvalue list \<Rightarrow> error + unit"
  and stringify_properties :: "(string \<times> jsvalue) list \<Rightarrow> error + unit" where
  "JSON_stringify (JSBigInt n) = Inl (TypeError ''Do not know how to serialize a BigInt'')"
| "JSON_stringify JSCircular = Inl (TypeError ''Converting circular structure to JSON'')"
| "JSON_stringify (JSArray vs) = stringify_elements vs"
| "JSON_stringify (JSObject kvs) = stringify_properties kvs"
| "JSON_stringify JSUndefined = Inr ()"
| "JSON_stringify JSNull = Inr ()"
| "JSON_stringify (JSBoolean b) = Inr ()"
| "JSON_stringify (JSNumber n) = Inr ()"
| "JSON_stringify (JSString s) = Inr ()"
| "stringify_elements [] = Inr ()"
| "stringify_elements (v # vs) =
     (case JSON_stringify v of Inl e \<Rightarrow> Inl e | Inr u \<Rightarrow> stringify_elements vs)"
| "stringify_properties [] = Inr ()"
| "stringify_properties (kv # kvs) =
     (case JSON_stringify (snd kv) of Inl e \<Rightarrow> Inl e | Inr u \<Rightarrow> stringify_properties kvs)"

text \<open>
  \<open>setScratchOrgInfo\<close>.  The trace log of \<open>JSON.stringify(soInfo)\<close> runs first, outside
  \<open>retry\<close> and outside any \<open>try\<close>: when it throws, the error goes to the caller and no
  update is issued.  The closure given to \<open>retry\<close> has the \<open>try\<close>/\<open>catch\<close> inside: a
  rejected update, and the \<open>TypeError\<close> of reading \<open>constructor\<close> on no result, end in
  \<open>return false\<close>.
\<close>

definition setScratchOrgInfo ::
  "jsvalue \<Rightarrow> (jsvalue, UpdateResult) endpoint \<Rightarrow> jsvalue list
     \<Rightarrow> ((error + bool) \<times> nat list) \<times> jsvalue list" where
  "setScratchOrgInfo soInfo update log =
     (case JSON_stringify soInfo of
        Inl e \<Rightarrow> ((Inl e, []), log)
      | Inr text \<Rightarrow>
          retry (\<lambda>log.
                   case call update soInfo log of
                     (Inl err, log') \<Rightarrow> (Inr False, log')
                   | (Inr NoResult, log') \<Rightarrow> (Inr False, log')
                   | (Inr (RecordResult success), log') \<Rightarrow> (Inr success, log')
                   | (Inr (RecordResults rs), log') \<Rightarrow> (Inr True, log'))
            \<lparr>retries = 3, minTimeout = 3000\<rparr> log)"

definition deleteScratchOrg ::
  "string list \<Rightarrow> (string list, 'r) endpoint \<Rightarrow> string list list
     \<Rightarrow> ((error + unit) \<times> nat list) \<times> string list list" where
  "deleteScratchOrg scratchOrgIds del =
     retry (\<lambda>log.
              case call del scratchOrgIds log of
                (Inl e, log') \<Rightarrow> (Inl e, log')
              | (Inr r, log') \<Rightarrow> (Inr (), log'))
       \<lparr>retries = 3, minTimeout = 3000\<rparr>"

subsection \<open>Record ids of a batch of scratch orgs\<close>

text \<open>
  \<open>getScratchOrgRecordId\<close> works on the caller's objects.  The store maps an address to
  the object there; the array \<open>scratchOrgs\<close> is a list of addresses.

  \<open>sliceOrgIds\<close> is the \<open>map\<close> callback run over the array: it assigns the sliced
  \<open>orgId\<close> to the object and yields the quoted identifier.  An object without \<open>orgId\<close>
  makes \<open>slice\<close> throw, after the objects before it were assigned.
\<close>

type_synonym store = "nat \<Rightarrow> ScratchOrg"

fun sliceOrgIds :: "nat list \<Rightarrow> store \<Rightarrow> (error + string list) \<times> store" where
  "sliceOrgIds [] h = (Inr [], h)"
| "sliceOrgIds (r # rs) h =
     (case orgId (h r) of
        None \<Rightarrow> (Inl (TypeError ''Cannot read property 'slice' of undefined''), h)
      | Some s \<Rightarrow>
          (let h' = h(r := (h r)\<lparr>orgId := Some (take 15 s)\<rparr>) in
           case sliceOrgIds rs h' of
             (Inl e, h'') \<Rightarrow> (Inl e, h'')
           | (Inr ids, h'') \<Rightarrow> (Inr (([CHR 0x27] @ take 15 s @ [CHR 0x27]) # ids), h'')))"

text \<open>
  \<open>arrayToObject\<close>: the rows keyed by a column, a later row replacing an earlier one
  with the same key.  The key of a row whose column is \<open>null\<close> is the text \<open>null\<close>.
  Keys are looked up among the rows only: org identifiers are not names of
  \<open>Object.prototype\<close>.
\<close>

fun propertyKey :: "string option \<Rightarrow> string" where
  "propertyKey None = ''null''"
| "propertyKey (Some s) = s"

definition arrayToObject ::
  "'r list \<Rightarrow> ('r \<Rightarrow> string option) \<Rightarrow> (string \<rightharpoonup> 'r)" where
  "arrayToObject array keyfield =
     foldl (\<lambda>obj item. obj(propertyKey (keyfield item) \<mapsto> item)) Map.empty array"

text \<open>The \<open>forEach\<close> that assigns \<open>recordId\<close>; a missing key throws.\<close>

fun setRecordIds ::
  "nat list \<Rightarrow> (string \<rightharpoonup> ScratchOrgInfo) \<Rightarrow> store \<Rightarrow> (error + unit) \<times> store" where
  "setRecordIds [] resultAsObject h = (Inr (), h)"
| "setRecordIds (r # rs) resultAsObject h =
     (case resultAsObject (propertyKey (orgId (h r))) of
        None \<Rightarrow> (Inl (TypeError ''Cannot read property 'Id' of undefined''), h)
      | Some row \<Rightarrow> setRecordIds rs resultAsObject (h(r := (h r)\<lparr>recordId := Id' row\<rparr>)))"

definition recordIdQuery :: "string list \<Rightarrow> string" where
  "recordIdQuery ids =
     ''SELECT Id, ScratchOrg FROM ScratchOrgInfo WHERE ScratchOrg IN ( '' @ join '','' ids @ '' )''"

definition getScratchOrgRecordId ::
  "nat list option \<Rightarrow> (string, ScratchOrgInfo QueryResult) endpoint \<Rightarrow> store \<times> string list
     \<Rightarrow> ((error + ScratchOrgInfo QueryResult option) \<times> nat list) \<times> store \<times> string list" where
  "getScratchOrgRecordId scratchOrgs hubConn = (\<lambda>(h, log).
     case scratchOrgs of
       None \<Rightarrow> ((Inr None, []), (h, log))
     | Some refs \<Rightarrow>
         if length refs = 0 then ((Inr None, []), (h, log))
         else (case sliceOrgIds refs h of
                 (Inl e, h1) \<Rightarrow> ((Inl e, []), (h1, log))
               | (Inr scratchOrgIds, h1) \<Rightarrow>
                   retry (\<lambda>(h2, log2).
                            case call hubConn (recordIdQuery scratchOrgIds) log2 of
                              (Inl e, log3) \<Rightarrow> (Inl e, (h2, log3))
                            | (Inr results, log3) \<Rightarrow>
                                (case setRecordIds refs
                                        (arrayToObject (records results) ScratchOrg) h2 of
                                   (Inl e, h3) \<Rightarrow> (Inl e, (h3, log3))
                                 | (Inr u, h3) \<Rightarrow> (Inr (Some results), (h3, log3))))
                     \<lparr>retries = 3, minTimeout = 3000\<rparr> (h1, log)))"

subsection \<open>Provisioning\<close>

text \<open>
  The commands \<open>createScratchOrg\<close> runs outside the hub connection: each is a function
  from its arguments to what it resolves to or the error it rejects with.
\<close>

record CreateResult =
  result_orgId :: "string option"
  result_username :: "string option"

record PasswordData =
  passwordData_username :: "string option"
  passwordData_password :: "string option"

record Commands =
  createScratchOrgImpl_exec ::
    "string \<Rightarrow> string option \<Rightarrow> string \<Rightarrow> nat \<Rightarrow> string option \<Rightarrow> error + CreateResult"
  passwordGenerateImpl_exec :: "string option \<Rightarrow> error + PasswordData"
  authInfo_getSfdxAuthUrl :: "string option \<Rightarrow> error + string option"

text \<open>Decimal text of a sequence number, as \<open>${id}\<close> renders it.\<close>

fun string_of_nat :: "nat \<Rightarrow> string" where
  "string_of_nat n =
     (if n < 10 then [''0123456789'' ! n]
      else string_of_nat (n div 10) @ [''0123456789'' ! (n mod 10)])"

declare string_of_nat.simps [simp del]

text \<open>\<open>getScratchOrgLoginURL\<close>: one query, not wrapped in \<open>retry\<close>.\<close>

definition getScratchOrgLoginURL ::
  "(string, ScratchOrgInfo QueryResult) endpoint \<Rightarrow> string option \<Rightarrow> string list
     \<Rightarrow> (error + string option) \<times> string list" where
  "getScratchOrgLoginURL hubConn user log =
     (let query = ''SELECT Id, SignupUsername, LoginUrl FROM ScratchOrgInfo WHERE SignupUsername = ''
                  @ [CHR 0x27] @ template user @ [CHR 0x27]
      in case call hubConn query log of
           (Inl e, log') \<Rightarrow> (Inl e, log')
         | (Inr results, log') \<Rightarrow>
             (case records results of
                [] \<Rightarrow> (Inl (TypeError ''Cannot read property 'LoginUrl' of undefined''), log')
              | row # rest \<Rightarrow> (Inr (LoginUrl row), log')))"

definition createScratchOrg ::
  "nat \<Rightarrow> string option \<Rightarrow> string \<Rightarrow> nat \<Rightarrow> string option \<Rightarrow> Commands
     \<Rightarrow> (string, ScratchOrgInfo QueryResult) endpoint \<Rightarrow> string list
     \<Rightarrow> (error + ScratchOrg) \<times> string list" where
  "createScratchOrg sequenceId adminEmail config_file_path expiry hubUsername commands hubConn log =
     (case createScratchOrgImpl_exec commands config_file_path hubUsername
             (''SO'' @ string_of_nat sequenceId) expiry adminEmail of
        Inl error \<Rightarrow> (Inl error, log)
      | Inr result \<Rightarrow>
          (let scratchOrg0 = emptyScratchOrg
                 \<lparr>alias' := Some (''SO'' @ string_of_nat sequenceId),
                  orgId := result_orgId result,
                  username := result_username result,
                  signupEmail := (if truthy adminEmail then adminEmail else Some [])\<rparr>
           in case getScratchOrgLoginURL hubConn (username scratchOrg0) log of
                (Inl e, log') \<Rightarrow> (Inl e, log')
              | (Inr url, log') \<Rightarrow>
                  (let scratchOrg1 = scratchOrg0\<lparr>loginURL := url\<rparr>
                   in case passwordGenerateImpl_exec commands (username scratchOrg1) of
                        Inl e \<Rightarrow> (Inl e, log')
                      | Inr passwordData \<Rightarrow>
                          (let scratchOrg2 =
                                 scratchOrg1\<lparr>password := passwordData_password passwordData\<rparr>
                           in case authInfo_getSfdxAuthUrl commands (username scratchOrg2) of
                                Inl e \<Rightarrow> (Inl e, log')
                              | Inr authUrl \<Rightarrow>
                                  (let scratchOrg3 = scratchOrg2\<lparr>sfdxAuthUrl := authUrl\<rparr>
                                   in if \<not> truthy (passwordData_password passwordData)
                                      then (Inl (Error ''Unable to setup password to scratch org''),
                                            log')
                                      else (Inr scratchOrg3, log'))))))"

section \<open>Vocabulary of the properties\<close>

subsection \<open>Derived status\<close>

text \<open>
  The status the specification derives from the allocation-status value: \<open>Assigned\<close>
  gives \<open>In use\<close>; \<open>Available\<close> in new-compatibility mode, or an empty or absent value
  in legacy mode, gives \<open>Available\<close>; every other value gives
  \<open>Provisioning in progress\<close>.
\<close>

definition claimedStatus :: "bool \<Rightarrow> string option \<Rightarrow> string" where
  "claimedStatus newMode v =
     (if v = Some ''Assigned'' then ''In use''
      else if (newMode \<and> v = Some ''Available'') \<or> (\<not> newMode \<and> (v = None \<or> v = Some []))
           then ''Available''
      else ''Provisioning in progress'')"

subsection \<open>Prerequisites of a describe result\<close>

definition allocationField :: "DescribeResult \<Rightarrow> Field option" where
  "allocationField d = find (\<lambda>f. name f = ''Allocation_status__c'') (fields' d)"

definition activeValues :: "DescribeResult \<Rightarrow> string list" where
  "activeValues d =
     (case allocationField d of
        None \<Rightarrow> []
      | Some f \<Rightarrow> map pvalue (filter active (picklistValues f)))"

definition picklistCount :: "DescribeResult \<Rightarrow> nat" where
  "picklistCount d =
     (case allocationField d of None \<Rightarrow> 0 | Some f \<Rightarrow> length (picklistValues f))"

definition authUrlFieldPresent :: "DescribeResult \<Rightarrow> bool" where
  "authUrlFieldPresent d = (''SfdxAuthUrl__c'' \<in> set (map name (fields' d)))"

text \<open>
  The failure condition in the words of the specification: the active picklist of the
  allocation-status field has a count different from 4, or the expected values are not
  all among the active values, or the auth-url field is absent.
\<close>

definition claimedFailure :: "DescribeResult \<Rightarrow> bool" where
  "claimedFailure d =
     (length (activeValues d) \<noteq> 4
      \<or> \<not> set expectedValues \<subseteq> set (activeValues d)
      \<or> \<not> authUrlFieldPresent d)"

text \<open>
  The failure condition of the code: the count is that of all picklist values of the
  allocation-status field, active or not.
\<close>

definition amendedFailure :: "DescribeResult \<Rightarrow> bool" where
  "amendedFailure d =
     (picklistCount d \<noteq> 4
      \<or> \<not> set expectedValues \<subseteq> set (activeValues d)
      \<or> \<not> authUrlFieldPresent d)"

text \<open>No field named \<open>SfdxAuthUrl__c\<close> is listed after the allocation-status field.\<close>

fun authUrlNotAfterAllocation :: "Field list \<Rightarrow> bool" where
  "authUrlNotAfterAllocation [] = True"
| "authUrlNotAfterAllocation (f # fs) =
     (if name f = ''Allocation_status__c''
      then ''SfdxAuthUrl__c'' \<notin> set (map name fs)
      else authUrlNotAfterAllocation fs)"

subsection \<open>The query of the pool\<close>

text \<open>The parts of the query text that the specification names.\<close>

definition selectClause :: string where
  "selectClause = ''SELECT Pooltag__c, Id,  CreatedDate, ScratchOrg, ExpirationDate, SignupUsername, SignupEmail, Password__c, Allocation_status__c,LoginUrl,SfdxAuthUrl__c FROM ScratchOrgInfo WHERE ''"

definition tagFilter :: "string option \<Rightarrow> string" where
  "tagFilter poolTag =
     (case poolTag of
        Some t \<Rightarrow> ''Pooltag__c = '' @ [CHR 0x27] @ t @ [CHR 0x27] @ '' ''
      | None \<Rightarrow> ''Pooltag__c != null '')"

definition activeFilter :: string where
  "activeFilter = '' AND Status = 'Active' ''"

definition myPoolFilter :: "string option \<Rightarrow> string" where
  "myPoolFilter hubUsername =
     '' AND createdby.username = '' @ [CHR 0x27] @ template hubUsername @ [CHR 0x27] @ '' ''"

definition unassignedFilter :: string where
  "unassignedFilter =
     ''AND ( Allocation_status__c ='Available' OR Allocation_status__c = 'In Progress' ) ''"

subsection \<open>Record ids of a batch\<close>

definition quoted :: "string \<Rightarrow> string" where
  "quoted s = [CHR 0x27] @ s @ [CHR 0x27]"

text \<open>
  Between two stores, an object differs at most in its \<open>orgId\<close> and its \<open>recordId\<close>.
\<close>

definition onlyIdsChanged :: "store \<Rightarrow> store \<Rightarrow> bool" where
  "onlyIdsChanged h h' =
     (\<forall>r. (h' r)\<lparr>recordId := recordId (h r), orgId := orgId (h r)\<rparr> = h r)"

subsection \<open>Values that JSON can serialise\<close>

text \<open>A value that holds no \<open>BigInt\<close> and no circular reference, at any depth.\<close>

fun serialisable :: "jsvalue \<Rightarrow> bool"
  and serialisable_elements :: "jsvalue list \<Rightarrow> bool"
  and serialisable_properties :: "(string \<times> jsvalue) list \<Rightarrow> bool" where
  "serialisable (JSBigInt n) = False"
| "serialisable JSCircular = False"
| "serialisable (JSArray vs) = serialisable_elements vs"
| "serialisable (JSObject kvs) = serialisable_properties kvs"
| "serialisable JSUndefined = True"
| "serialisable JSNull = True"
| "serialisable (JSBoolean b) = True"
| "serialisable (JSNumber n) = True"
| "serialisable (JSString s) = True"
| "serialisable_elements [] = True"
| "serialisable_elements (v # vs) = (serialisable v \<and> serialisable_elements vs)"
| "serialisable_properties [] = True"
| "serialisable_properties (kv # kvs) = (serialisable (snd kv) \<and> serialisable_properties kvs)"

subsection \<open>Retry policy\<close>

text \<open>
  \<open>outcome\<close> is what a retry policy of \<open>n\<close> retries with the minimum wait \<open>timeout\<close>
  gives for a call of \<open>remote\<close> with \<open>request\<close>, starting from \<open>log\<close>: when the call
  throws \<open>k \<le> n\<close> times and then returns \<open>r\<close>, the outcome is \<open>g r\<close> after \<open>k + 1\<close>
  calls and \<open>k\<close> waits of at least \<open>timeout\<close>; when the first \<open>n + 1\<close> calls all throw,
  the outcome is the error of one of them, unchanged, after \<open>n + 1\<close> calls and \<open>n\<close> such
  waits.
\<close>

definition retriedCall ::
  "nat \<Rightarrow> nat \<Rightarrow> ('q, 'r) endpoint \<Rightarrow> 'q \<Rightarrow> ('r \<Rightarrow> 'a) \<Rightarrow> 'q list
     \<Rightarrow> ((error + 'a) \<times> nat list) \<times> 'q list \<Rightarrow> bool" where
  "retriedCall n timeout remote request g log outcome =
     ((\<forall>k\<le>n. (\<forall>j<k. \<exists>e. remote (length log + j) request = Inl e) \<longrightarrow>
         (\<forall>r. remote (length log + k) request = Inr r \<longrightarrow>
              outcome = ((Inr (g r), replicate k timeout), log @ replicate (Suc k) request)))
      \<and> ((\<forall>j\<le>n. \<exists>e. remote (length log + j) request = Inl e) \<longrightarrow>
           (\<exists>j\<le>n. \<exists>e. remote (length log + j) request = Inl e
                \<and> outcome = ((Inl e, replicate n timeout), log @ replicate (Suc n) request))))"

section \<open>Sample data\<close>

definition row :: "string option \<Rightarrow> ScratchOrgInfo" where
  "row v = \<lparr>Id' = None, Pooltag__c = Some ''core'', CreatedDate = None, ScratchOrg = None,
            ExpirationDate = None, SignupUsername = None, SignupEmail = None, Password__c = None,
            Allocation_status__c = v, LoginUrl = None, SfdxAuthUrl__c = None\<rparr>"

definition picklist :: "(string \<times> bool) list \<Rightarrow> PicklistValue list" where
  "picklist vs = map (\<lambda>(v, a). \<lparr>pvalue = v, active = a\<rparr>) vs"

definition describeGood :: DescribeResult where
  "describeGood =
     \<lparr>fields' =
        [\<lparr>name = ''SfdxAuthUrl__c'', picklistValues = []\<rparr>,
         \<lparr>name = ''Allocation_status__c'',
          picklistValues = picklist [(''In Progress'', True), (''Available'', True),
                                     (''Allocate'', True), (''Assigned'', True)]\<rparr>]\<rparr>"

definition describeWithInactiveValue :: DescribeResult where
  "describeWithInactiveValue =
     \<lparr>fields' =
        [\<lparr>name = ''SfdxAuthUrl__c'', picklistValues = []\<rparr>,
         \<lparr>name = ''Allocation_status__c'',
          picklistValues = picklist [(''In Progress'', True), (''Available'', True),
                                     (''Allocate'', True), (''Assigned'', True),
                                     (''Return'', False)]\<rparr>]\<rparr>"

definition describeNoAuthUrl :: DescribeResult where
  "describeNoAuthUrl =
     \<lparr>fields' =
        [\<lparr>name = ''Allocation_status__c'',
          picklistValues = picklist [(''In Progress'', True), (''Available'', True),
                                     (''Allocate'', True), (''Assigned'', True)]\<rparr>]\<rparr>"

definition describeAuthUrlLast :: DescribeResult where
  "describeAuthUrlLast =
     \<lparr>fields' =
        [\<lparr>name = ''Allocation_status__c'',
          picklistValues = picklist [(''In Progress'', True), (''Available'', True),
                                     (''Allocate'', True), (''Assigned'', True)]\<rparr>,
         \<lparr>name = ''SfdxAuthUrl__c'', picklistValues = []\<rparr>]\<rparr>"

definition flakyDescribe :: "(unit, DescribeResult option) endpoint" where
  "flakyDescribe k u =
     (if k = 0 then Inl (RemoteError ''ECONNRESET'') else Inr (Some describeGood))"

definition failingDescribe :: "(unit, DescribeResult option) endpoint" where
  "failingDescribe k u = Inl (RemoteError ''ECONNRESET'')"

definition createOk :: "string \<Rightarrow> string option \<Rightarrow> string \<Rightarrow> nat \<Rightarrow> string option \<Rightarrow> error + CreateResult" where
  "createOk config hubUser al expiry email =
     Inr \<lparr>result_orgId = Some ''00D2xxxxxxxxxxxAAA'', result_username = Some ''test-so1@example.com''\<rparr>"

definition loginRow :: ScratchOrgInfo where
  "loginRow = \<lparr>Id' = Some ''2SR000000000001'', Pooltag__c = None, CreatedDate = None,
       ScratchOrg = None, ExpirationDate = None, SignupUsername = Some ''test-so1@example.com'',
       SignupEmail = None, Password__c = None, Allocation_status__c = None,
       LoginUrl = Some ''https://test.salesforce.com'', SfdxAuthUrl__c = None\<rparr>"

definition loginConn :: "(string, ScratchOrgInfo QueryResult) endpoint" where
  "loginConn k q = Inr \<lparr>records = [loginRow], totalSize = 1\<rparr>"

definition flakyConn :: "(string, ScratchOrgInfo QueryResult) endpoint" where
  "flakyConn k q = (if k = 0 then Inl (RemoteError ''ECONNRESET'')
                    else Inr \<lparr>records = [loginRow], totalSize = 1\<rparr>)"

definition noPasswordCommands :: Commands where
  "noPasswordCommands =
     \<lparr>createScratchOrgImpl_exec = createOk,
      passwordGenerateImpl_exec =
        (\<lambda>user. Inr \<lparr>passwordData_username = user, passwordData_password = None\<rparr>),
      authInfo_getSfdxAuthUrl = (\<lambda>user. Inl (Error ''No AuthInfo found''))\<rparr>"

definition goodCommands :: Commands where
  "goodCommands =
     \<lparr>createScratchOrgImpl_exec = createOk,
      passwordGenerateImpl_exec =
        (\<lambda>user. Inr \<lparr>passwordData_username = user, passwordData_password = Some ''s3cret''\<rparr>),
      authInfo_getSfdxAuthUrl = (\<lambda>user. Inr (Some ''force://token@test.salesforce.com''))\<rparr>"

definition noPasswordAuthOkCommands :: Commands where
  "noPasswordAuthOkCommands =
     \<lparr>createScratchOrgImpl_exec = createOk,
      passwordGenerateImpl_exec =
        (\<lambda>user. Inr \<lparr>passwordData_username = user, passwordData_password = None\<rparr>),
      authInfo_getSfdxAuthUrl = (\<lambda>user. Inr (Some ''force://token@test.salesforce.com''))\<rparr>"

definition poolOrg :: "string \<Rightarrow> ScratchOrg" where
  "poolOrg i = emptyScratchOrg\<lparr>orgId := Some i, tag := Some ''core''\<rparr>"

definition callerStore :: store where
  "callerStore r = (if r = 0 then poolOrg ''00D1'' else if r = 1 then poolOrg ''00D2xxxxxxxxxxxAAA''
                    else emptyScratchOrg)"

definition infoRow :: "string \<Rightarrow> string \<Rightarrow> ScratchOrgInfo" where
  "infoRow i k = \<lparr>Id' = Some i, Pooltag__c = None, CreatedDate = None,
       ScratchOrg = Some k, ExpirationDate = None, SignupUsername = None,
       SignupEmail = None, Password__c = None, Allocation_status__c = None,
       LoginUrl = None, SfdxAuthUrl__c = None\<rparr>"

definition recordIdConn :: "(string, ScratchOrgInfo QueryResult) endpoint" where
  "recordIdConn k q = Inr \<lparr>records = [infoRow ''2SR000000000001'' ''00D1'',
                                        infoRow ''2SR000000000002'' ''00D2xxxxxxxxxxx''],
                            totalSize = 2\<rparr>"

definition truncatedQuery :: string where
  "truncatedQuery = ''SELECT Id, ScratchOrg FROM ScratchOrgInfo WHERE ScratchOrg IN ( '00D1','00D2xxxxxxxxxxx' )''"

definition queryRow :: ScratchOrgInfo where
  "queryRow = \<lparr>Id' = Some ''2SR000000000001'', Pooltag__c = Some ''core'', CreatedDate = None,
       ScratchOrg = Some ''00D1'', ExpirationDate = None, SignupUsername = None,
       SignupEmail = None, Password__c = None, Allocation_status__c = Some ''Available'',
       LoginUrl = None, SfdxAuthUrl__c = None\<rparr>"

definition twiceFailingConn :: "(string, ScratchOrgInfo QueryResult) endpoint" where
  "twiceFailingConn k q =
     (if k < 2 then Inl (RemoteError ''ECONNRESET'')
      else Inr \<lparr>records = [queryRow], totalSize = 1\<rparr>)"

definition assignedInfo :: jsvalue where
  "assignedInfo =
     JSObject [(''Id'', JSString ''2SR000000000001''),
               (''Allocation_status__c'', JSString ''Assigned'')]"

definition circularInfo :: jsvalue where
  "circularInfo =
     JSObject [(''Id'', JSString ''2SR000000000001''), (''self'', JSCircular)]"

definition thriceFailingConn :: "(string, ScratchOrgInfo QueryResult) endpoint" where
  "thriceFailingConn k q =
     (if k < 3 then Inl (RemoteError ''ECONNRESET'')
      else Inr \<lparr>records = [queryRow], totalSize = 1\<rparr>)"

section \<open>Verified properties\<close>

subsection \<open>The retry wrapper\<close>

lemma retry_returns: "fn s = (Inr v, s') \<Longrightarrow> retry fn opts s = ((Inr v, []), s')"
  by (cases "retries opts") (simp_all add: retry_def)

text \<open>
  When the attempts before the \<open>k\<close>-th throw and the \<open>k\<close>-th returns within the budget,
  the wrapper returns what that attempt returned, after \<open>k\<close> waits.
\<close>

lemma retry_attempts_eventually:
  "\<forall>j<k. fn (sts j) = (Inl (er j), sts (Suc j)) \<Longrightarrow> fn (sts k) = (Inr v, s') \<Longrightarrow> k \<le> n \<Longrightarrow>
   retry_attempts n t errs ws fn (sts 0) = ((Inr v, ws @ replicate k t), s')"
proof (induction n arbitrary: k sts er errs ws)
  case 0
  then show ?case by simp
next
  case (Suc n)
  show ?case
  proof (cases k)
    case 0
    with Suc.prems show ?thesis by simp
  next
    case (Suc k')
    with Suc.prems have first: "fn (sts 0) = (Inl (er 0), sts (Suc 0))" by simp
    have "retry_attempts n t (errs @ [er 0]) (ws @ [t]) fn ((sts \<circ> Suc) 0)
        = ((Inr v, (ws @ [t]) @ replicate k' t), s')"
    proof (rule Suc.IH [of k' "sts \<circ> Suc" "er \<circ> Suc"])
      show "\<forall>j<k'. fn ((sts \<circ> Suc) j) = (Inl ((er \<circ> Suc) j), (sts \<circ> Suc) (Suc j))"
        using Suc.prems(1) Suc by simp
      show "fn ((sts \<circ> Suc) k') = (Inr v, s')" using Suc.prems(2) Suc by simp
      show "k' \<le> n" using Suc.prems(3) Suc by simp
    qed
    with first Suc show ?thesis by (simp add: replicate_append_same)
  qed
qed

subsection \<open>Pool listing\<close>

lemma status_soDetail:
  "status (soDetail nv element) = Some (claimedStatus nv (Allocation_status__c element))"
  by (cases "Allocation_status__c element") (auto simp: soDetail_def claimedStatus_def)

text \<open>
  Claim C1.  For every record of the query result, the status of the listed scratch org is
  the one the specification derives from the record's allocation-status value and the
  compatibility mode: \<open>Assigned\<close> gives \<open>In use\<close>; \<open>Available\<close> in new mode, or an empty
  or absent value in legacy mode, gives \<open>Available\<close>; every other value gives
  \<open>Provisioning in progress\<close>.
\<close>

theorem pool_list_status_derivation:
  "map status (execute nv results) =
     map (\<lambda>element. Some (claimedStatus nv (Allocation_status__c element))) (records results)"
  by (simp add: execute_def status_soDetail)

theorem pool_list_status_derivation_witness:
  "map status (execute True \<lparr>records = [row (Some ''Assigned''), row (Some ''Available''),
        row (Some ''In Progress''), row None], totalSize = 4\<rparr>)
     = [Some ''In use'', Some ''Available'', Some ''Provisioning in progress'',
        Some ''Provisioning in progress'']
   \<and> map status (execute False \<lparr>records = [row (Some ''Assigned''), row (Some ''Available''),
        row (Some []), row None], totalSize = 4\<rparr>)
     = [Some ''In use'', Some ''Provisioning in progress'', Some ''Available'', Some ''Available'']"
  using pool_list_status_derivation [of True "\<lparr>records = [row (Some ''Assigned''),
        row (Some ''Available''), row (Some ''In Progress''), row None], totalSize = 4\<rparr>"]
    pool_list_status_derivation [of False "\<lparr>records = [row (Some ''Assigned''),
        row (Some ''Available''), row (Some []), row None], totalSize = 4\<rparr>"]
  by (simp add: claimedStatus_def row_def)

lemma three_way_count:
  "\<forall>x \<in> set xs. f x = a \<or> f x = b \<or> f x = c \<Longrightarrow> a \<noteq> b \<Longrightarrow> a \<noteq> c \<Longrightarrow> b \<noteq> c \<Longrightarrow>
   length (filter (\<lambda>x. f x = a) xs) + length (filter (\<lambda>x. f x = b) xs)
     + length (filter (\<lambda>x. f x = c) xs) = length xs"
  by (induction xs) auto

lemma status_execute_cases:
  "so \<in> set (execute nv results) \<Longrightarrow>
     status so = Some ''In use'' \<or> status so = Some ''Available''
       \<or> status so = Some ''Provisioning in progress''"
  by (auto simp: execute_def soDetail_def split: if_splits)

lemma length_filter_status_strip:
  "length (filter (\<lambda>x. status x = v) (map (\<lambda>element. element\<lparr>password := None\<rparr>) xs))
     = length (filter (\<lambda>x. status x = v) xs)"
  by (induction xs) auto

text \<open>
  Claim C10.  Every scratch org produced by the listing has one of the three statuses
  \<open>In use\<close>, \<open>Available\<close>, \<open>Provisioning in progress\<close>; so the total reported by the
  list command is the sum of the in-use, unused and in-provision counts, and it is the
  number of listed scratch orgs and of queried records.
\<close>

theorem pool_list_counts:
  "(\<forall>so \<in> set (execute nv results).
      status so \<in> {Some ''In use'', Some ''Available'', Some ''Provisioning in progress''})
   \<and> total (run mypool (execute nv results))
       = inuse (run mypool (execute nv results)) + unused (run mypool (execute nv results))
         + inprovision (run mypool (execute nv results))
   \<and> total (run mypool (execute nv results))
       = length (scratchOrgDetails (run mypool (execute nv results)))
   \<and> total (run mypool (execute nv results)) = length (records results)"
proof -
  let ?xs = "execute nv results"
  have cases: "\<forall>so \<in> set ?xs. status so = Some ''In use'' \<or> status so = Some ''Available''
       \<or> status so = Some ''Provisioning in progress''"
    using status_execute_cases by blast
  have len: "length ?xs = length (records results)"
    by (simp add: execute_def)
  have count: "length (filter (\<lambda>x. status x = Some ''In use'') ?xs)
      + length (filter (\<lambda>x. status x = Some ''Available'') ?xs)
      + length (filter (\<lambda>x. status x = Some ''Provisioning in progress'') ?xs) = length ?xs"
    by (rule three_way_count [OF cases]) simp_all
  have t: "total (run mypool ?xs) = length ?xs"
    using count by (simp add: run_def Let_def length_filter_status_strip del: length_filter_map)
  have d: "length (scratchOrgDetails (run mypool ?xs)) = length ?xs"
    by (simp add: run_def Let_def)
  have s: "total (run mypool ?xs) = inuse (run mypool ?xs) + unused (run mypool ?xs)
         + inprovision (run mypool ?xs)"
    by (simp add: run_def Let_def)
  show ?thesis using cases t d s len by auto
qed

theorem pool_list_counts_witness:
  "total (run False (execute False \<lparr>records = [row (Some ''Assigned''), row (Some ''Available''),
        row (Some []), row None], totalSize = 4\<rparr>)) = 4
   \<and> inuse (run False (execute False \<lparr>records = [row (Some ''Assigned''),
        row (Some ''Available''), row (Some []), row None], totalSize = 4\<rparr>)) = 1
   \<and> unused (run False (execute False \<lparr>records = [row (Some ''Assigned''),
        row (Some ''Available''), row (Some []), row None], totalSize = 4\<rparr>)) = 2
   \<and> inprovision (run False (execute False \<lparr>records = [row (Some ''Assigned''),
        row (Some ''Available''), row (Some []), row None], totalSize = 4\<rparr>)) = 1"
  using pool_list_counts [of False "\<lparr>records = [row (Some ''Assigned''),
        row (Some ''Available''), row (Some []), row None], totalSize = 4\<rparr>" False]
  by (simp add: run_def execute_def soDetail_def row_def Let_def)

subsection \<open>Prerequisite check\<close>

lemma scanFields_no_allocation:
  "''Allocation_status__c'' \<notin> set (map name fs) \<Longrightarrow>
   scanFields fs ex av = (ex \<or> ''SfdxAuthUrl__c'' \<in> set (map name fs), av)"
  by (induction fs arbitrary: ex) (auto simp: Let_def)

text \<open>
  What the scan computes when field names are unique and the auth-url field is not
  listed after the allocation-status field.
\<close>

lemma scanFields_ordered:
  "distinct (map name fs) \<Longrightarrow> authUrlNotAfterAllocation fs \<Longrightarrow>
   scanFields fs ex av =
     (ex \<or> ''SfdxAuthUrl__c'' \<in> set (map name fs),
      av @ (case find (\<lambda>f. name f = ''Allocation_status__c'') fs of
              None \<Rightarrow> []
            | Some f \<Rightarrow> if length (picklistValues f) = 4
                        then map pvalue (filter active (picklistValues f)) else []))"
proof (induction fs arbitrary: ex)
  case Nil
  then show ?case by simp
next
  case (Cons f fs)
  show ?case
  proof (cases "name f = ''Allocation_status__c''")
    case True
    with Cons.prems have no_alloc: "''Allocation_status__c'' \<notin> set (map name fs)"
      and no_auth: "''SfdxAuthUrl__c'' \<notin> set (map name fs)"
      by auto
    show ?thesis
      using True no_auth scanFields_no_allocation [OF no_alloc]
      by (simp add: Let_def)
  next
    case False
    with Cons.prems have "distinct (map name fs)" "authUrlNotAfterAllocation fs" by auto
    from Cons.IH [OF this] False show ?thesis
      by (auto simp: Let_def)
  qed
qed

lemma statusValuesAvailable_iff:
  "filter (\<lambda>item. item \<notin> set av) xs = [] \<longleftrightarrow> set xs \<subseteq> set av"
  by (auto simp: filter_empty_conv)

lemma expected_not_in_empty: "\<not> set expectedValues \<subseteq> set []"
  by (simp add: expectedValues_def)

text \<open>
  The first invocation in a process whose describe call returns \<open>d\<close> at once: the
  verdict in terms of what the scan of the fields of \<open>d\<close> yields.
\<close>

lemma checkForPrerequisites_first:
  assumes "describe 0 () = Inr (Some d)"
    and "scanFields (fields' d) False [] = (ex, av)"
  shows "fst (fst (checkForPrerequisites describe (initialStatics, []))) =
     (if ex \<and> set expectedValues \<subseteq> set av then Inr ()
      else Inl (PreRequisiteCheckError prerequisiteMessage (fields' d)))"
proof -
  have attempt: "describeAttempt describe (initialStatics, [], False, []) =
      (Inr (), (initialStatics\<lparr>describeResult := Some d\<rparr>, [()], ex, av))"
    using assms by (simp add: describeAttempt_def call_def)
  show ?thesis
    by (simp add: checkForPrerequisites_def initialStatics_def
        retry_returns [of "describeAttempt describe" _ "()",
          OF attempt [unfolded initialStatics_def]]
        Let_def throwUnlessMet_def statusValuesAvailable_iff)
qed

text \<open>
  Claim C2, as amended.  For every describe result in which field names are unique and
  the auth-url field is not listed after the allocation-status field, the prerequisite
  check throws \<open>PreRequisiteCheckError\<close> exactly when the allocation-status field is
  missing or has a number of picklist values (active or not) different from 4, or when
  the four expected values are not all among its active values, or when the auth-url
  field is absent; otherwise it succeeds.
\<close>

theorem prerequisite_check_verdict:
  assumes "describe 0 () = Inr (Some d)"
    and "distinct (map name (fields' d))"
    and "authUrlNotAfterAllocation (fields' d)"
  shows "fst (fst (checkForPrerequisites describe (initialStatics, []))) =
     (if amendedFailure d then Inl (PreRequisiteCheckError prerequisiteMessage (fields' d))
      else Inr ())"
proof -
  let ?av = "case find (\<lambda>f. name f = ''Allocation_status__c'') (fields' d) of
              None \<Rightarrow> []
            | Some f \<Rightarrow> if length (picklistValues f) = 4
                        then map pvalue (filter active (picklistValues f)) else []"
  have scan: "scanFields (fields' d) False [] =
      (''SfdxAuthUrl__c'' \<in> set (map name (fields' d)), ?av)"
    using scanFields_ordered [OF assms(2,3), of False "[]"] by simp
  have "(''SfdxAuthUrl__c'' \<in> set (map name (fields' d))
          \<and> set expectedValues \<subseteq> set ?av) \<longleftrightarrow> \<not> amendedFailure d"
  proof (cases "find (\<lambda>f. name f = ''Allocation_status__c'') (fields' d)")
    case None
    then show ?thesis
      using expected_not_in_empty
      by (simp add: amendedFailure_def picklistCount_def allocationField_def)
  next
    case (Some f)
    show ?thesis
    proof (cases "length (picklistValues f) = 4")
      case True
      with Some show ?thesis
        by (simp add: amendedFailure_def picklistCount_def activeValues_def allocationField_def
            authUrlFieldPresent_def conj_commute)
    next
      case False
      with Some show ?thesis
        using expected_not_in_empty
        by (simp add: amendedFailure_def picklistCount_def allocationField_def)
    qed
  qed
  with checkForPrerequisites_first [of describe d, OF assms(1) scan] show ?thesis by auto
qed

theorem prerequisite_check_verdict_witness:
  "fst (fst (checkForPrerequisites (\<lambda>k u. Inr (Some describeGood)) (initialStatics, [])))
     = Inr ()
   \<and> fst (fst (checkForPrerequisites (\<lambda>k u. Inr (Some describeNoAuthUrl))
                 (initialStatics, [])))
       = Inl (PreRequisiteCheckError prerequisiteMessage (fields' describeNoAuthUrl))"
  using prerequisite_check_verdict [of "\<lambda>k u. Inr (Some describeGood)" describeGood]
    prerequisite_check_verdict [of "\<lambda>k u. Inr (Some describeNoAuthUrl)" describeNoAuthUrl]
  by (simp add: describeGood_def describeNoAuthUrl_def picklist_def amendedFailure_def
      picklistCount_def activeValues_def allocationField_def authUrlFieldPresent_def
      expectedValues_def)

text \<open>
  The claim as stated fails: with the four expected values active and a fifth, inactive
  value in the picklist, and the auth-url field present, the active count is 4 and the
  specification's check passes, but the code throws.
\<close>

theorem prerequisite_check_counterexample:
  "\<not> claimedFailure describeWithInactiveValue
   \<and> fst (fst (checkForPrerequisites (\<lambda>k u. Inr (Some describeWithInactiveValue))
                 (initialStatics, [])))
       = Inl (PreRequisiteCheckError prerequisiteMessage (fields' describeWithInactiveValue))"
proof -
  have scan: "scanFields (fields' describeWithInactiveValue) False [] = (True, [])"
    by (simp add: describeWithInactiveValue_def picklist_def)
  have claim: "\<not> claimedFailure describeWithInactiveValue"
    by (simp add: claimedFailure_def describeWithInactiveValue_def picklist_def
        activeValues_def allocationField_def authUrlFieldPresent_def expectedValues_def)
  have "fst (fst (checkForPrerequisites (\<lambda>k u. Inr (Some describeWithInactiveValue))
                 (initialStatics, [])))
       = Inl (PreRequisiteCheckError prerequisiteMessage (fields' describeWithInactiveValue))"
    using checkForPrerequisites_first
      [of "\<lambda>k u. Inr (Some describeWithInactiveValue)" describeWithInactiveValue, OF _ scan]
    by (simp add: expectedValues_def)
  with claim show ?thesis by simp
qed

text \<open>
  The scan stops at the allocation-status field: an auth-url field listed after it is
  not seen, and the check throws although the field is there.
\<close>

lemma auth_url_after_allocation_not_seen:
  "\<not> amendedFailure describeAuthUrlLast
   \<and> fst (fst (checkForPrerequisites (\<lambda>k u. Inr (Some describeAuthUrlLast))
                 (initialStatics, [])))
       = Inl (PreRequisiteCheckError prerequisiteMessage (fields' describeAuthUrlLast))"
proof -
  have scan: "scanFields (fields' describeAuthUrlLast) False []
      = (False, [''In Progress'', ''Available'', ''Allocate'', ''Assigned''])"
    by (simp add: describeAuthUrlLast_def picklist_def)
  have ok: "\<not> amendedFailure describeAuthUrlLast"
    by (simp add: amendedFailure_def describeAuthUrlLast_def picklist_def picklistCount_def
        activeValues_def allocationField_def authUrlFieldPresent_def expectedValues_def)
  have "fst (fst (checkForPrerequisites (\<lambda>k u. Inr (Some describeAuthUrlLast))
                 (initialStatics, [])))
       = Inl (PreRequisiteCheckError prerequisiteMessage (fields' describeAuthUrlLast))"
    using checkForPrerequisites_first
      [of "\<lambda>k u. Inr (Some describeAuthUrlLast)" describeAuthUrlLast, OF _ scan]
    by simp
  with ok show ?thesis by simp
qed

lemma initialStatics_unchecked: "\<not> isPrerequisiteChecked initialStatics"
  by (simp add: initialStatics_def)

lemma checkForPrerequisites_checked:
  "isPrerequisiteChecked st \<Longrightarrow>
   checkForPrerequisites describe (st, log) = ((throwUnlessMet st, []), (st, log))"
  by (simp add: checkForPrerequisites_def)

lemma invocations_checked:
  "isPrerequisiteChecked st \<Longrightarrow>
   invocations n describe (st, log) = (replicate n (throwUnlessMet st), (st, log))"
  by (induction n) (simp_all add: checkForPrerequisites_checked)

lemma describeAttempt_throws:
  "describe (length log) () = Inl e \<Longrightarrow>
   describeAttempt describe (st, log, ex, av) = (Inl e, (st, log @ [()], ex, av))"
  by (simp add: describeAttempt_def call_def)

lemma describeAttempt_returns:
  "describe (length log) () = Inr dr \<Longrightarrow>
   \<exists>ex' av'. describeAttempt describe (st, log, ex, av)
      = (Inr (), (st\<lparr>describeResult := dr\<rparr>, log @ [()], ex', av'))"
  by (cases dr) (auto simp: describeAttempt_def call_def Let_def split: prod.splits)

text \<open>
  The first invocation, when the describe call throws \<open>k\<close> times and then returns:
  \<open>k + 1\<close> describe calls are issued, after \<open>k\<close> waits of 30 seconds, and the check
  is marked as done.
\<close>

lemma checkForPrerequisites_memoizes:
  assumes fails: "\<forall>j<k. \<exists>e. describe j () = Inl e"
    and returns: "describe k () = Inr dr"
    and budget: "k \<le> 3"
  shows "\<exists>st. isPrerequisiteChecked st \<and>
     checkForPrerequisites describe (initialStatics, [])
       = ((throwUnlessMet st, replicate k 30000), (st, replicate (Suc k) ()))"
proof -
  define er where "er j = (case describe j () of Inl e \<Rightarrow> e | Inr x \<Rightarrow> Error [])" for j
  define sts :: "nat \<Rightarrow> checkState"
    where "sts j = (initialStatics, replicate j (), False, [])" for j
  have step: "\<forall>j<k. describeAttempt describe (sts j) = (Inl (er j), sts (Suc j))"
  proof (intro allI impI)
    fix j assume "j < k"
    with fails obtain e where e: "describe j () = Inl e" by blast
    then have "er j = e" by (simp add: er_def)
    with e show "describeAttempt describe (sts j) = (Inl (er j), sts (Suc j))"
      using describeAttempt_throws [of describe "replicate j ()" e initialStatics False "[]"]
      by (simp add: sts_def replicate_append_same)
  qed
  obtain ex av where last: "describeAttempt describe (sts k)
      = (Inr (), (initialStatics\<lparr>describeResult := dr\<rparr>, replicate (Suc k) (), ex, av))"
    using describeAttempt_returns [of describe "replicate k ()" dr initialStatics False "[]"]
      returns
    by (auto simp: sts_def replicate_append_same)
  have "retry_attempts 3 30000 [] [] (describeAttempt describe) (sts 0)
      = ((Inr (), [] @ replicate k 30000),
         (initialStatics\<lparr>describeResult := dr\<rparr>, replicate (Suc k) (), ex, av))"
    by (rule retry_attempts_eventually [OF step last budget])
  then have r: "retry (describeAttempt describe) \<lparr>retries = 3, minTimeout = 30000\<rparr>
        (initialStatics, [], False, [])
      = ((Inr (), replicate k 30000),
         (initialStatics\<lparr>describeResult := dr\<rparr>, replicate (Suc k) (), ex, av))"
    by (simp add: retry_def sts_def)
  define st where
    "st = (if ex \<and> length (filter (\<lambda>item. item \<notin> set av) expectedValues) = 0
           then initialStatics\<lparr>describeResult := dr, isPrerequisiteChecked := True,
                  isPrerequisiteMet := True\<rparr>
           else initialStatics\<lparr>describeResult := dr, isPrerequisiteChecked := True\<rparr>)"
  have "isPrerequisiteChecked st" by (simp add: st_def)
  moreover have "checkForPrerequisites describe (initialStatics, [])
       = ((throwUnlessMet st, replicate k 30000), (st, replicate (Suc k) ()))"
    using initialStatics_unchecked
    unfolding checkForPrerequisites_def
    by (simp add: r Let_def st_def del: replicate_Suc)
  ultimately show ?thesis by blast
qed

text \<open>
  Claim C3, as amended.  When the describe call of the first invocation throws \<open>k\<close>
  times (at most 3, each retried by the wrapper) and then returns, any number \<open>n + 1\<close>
  of invocations of the prerequisite check in one process issues exactly \<open>k + 1\<close>
  describe calls, exactly one when the first attempt returns; every invocation gives
  the same verdict, the later ones from the memoized flags without a describe call.
\<close>

theorem prerequisite_check_memoized:
  assumes "\<forall>j<k. \<exists>e. describe j () = Inl e"
    and "describe k () = Inr dr"
    and "k \<le> 3"
  shows "length (snd (snd (invocations (Suc n) describe (initialStatics, [])))) = Suc k
     \<and> (\<exists>verdict. fst (invocations (Suc n) describe (initialStatics, []))
            = replicate (Suc n) verdict)"
proof -
  from checkForPrerequisites_memoizes [of k describe dr, OF assms] obtain st where
    st: "isPrerequisiteChecked st"
    and first: "checkForPrerequisites describe (initialStatics, [])
       = ((throwUnlessMet st, replicate k 30000), (st, replicate (Suc k) ()))"
    by blast
  show ?thesis
    by (simp add: first invocations_checked [OF st] del: replicate_Suc)
      (simp add: replicate_append_same)
qed

theorem prerequisite_check_memoized_witness:
  "length (snd (snd (invocations 3 (\<lambda>k u. Inr (Some describeGood)) (initialStatics, [])))) = 1
   \<and> length (snd (snd (invocations 3 flakyDescribe (initialStatics, [])))) = 2"
  using prerequisite_check_memoized [of 0 "\<lambda>k u. Inr (Some describeGood)" "Some describeGood" 2]
    prerequisite_check_memoized [of 1 flakyDescribe "Some describeGood" 2]
  by (simp add: numeral_3_eq_3 flakyDescribe_def)

text \<open>
  The claim as stated fails: when the first describe attempt throws and the second
  returns, two invocations issue two describe calls.
\<close>

theorem prerequisite_check_memoized_counterexample:
  "length (snd (snd (invocations 2 flakyDescribe (initialStatics, [])))) = 2"
  by (simp add: numeral_2_eq_2 numeral_3_eq_3 checkForPrerequisites_def retry_def
      describeAttempt_def call_def flakyDescribe_def initialStatics_def describeGood_def
      picklist_def expectedValues_def throwUnlessMet_def Let_def)

subsection \<open>Exhausted retries, invariants and logs\<close>

text \<open>The error a rejected \<open>retry\<close> carries is one of the errors of the attempts.\<close>

lemma mainError_loop_some:
  "\<exists>e. mainError_loop es counts (Some m) c = Some e \<and> (e = m \<or> e \<in> set es)"
proof (induction es arbitrary: counts m c)
  case Nil
  then show ?case by simp
next
  case (Cons a es)
  let ?count = "counts (message a) + 1"
  let ?counts = "counts(message a := ?count)"
  show ?case
  proof (cases "?count \<ge> c")
    case True
    obtain e where e: "mainError_loop es ?counts (Some a) ?count = Some e"
      and mem: "e = a \<or> e \<in> set es"
      using Cons.IH by blast
    have "mainError_loop (a # es) counts (Some m) c = mainError_loop es ?counts (Some a) ?count"
      using True by (simp add: Let_def)
    with e mem show ?thesis by auto
  next
    case False
    obtain e where e: "mainError_loop es ?counts (Some m) c = Some e"
      and mem: "e = m \<or> e \<in> set es"
      using Cons.IH by blast
    have "mainError_loop (a # es) counts (Some m) c = mainError_loop es ?counts (Some m) c"
      using False by (simp add: Let_def)
    with e mem show ?thesis by auto
  qed
qed

lemma mainError_in: "es \<noteq> [] \<Longrightarrow> \<exists>e \<in> set es. mainError es = Some e"
proof (cases es)
  case Nil
  assume "es \<noteq> []"
  with Nil show ?thesis by simp
next
  case (Cons a as)
  obtain e where e: "mainError_loop as ((\<lambda>_. 0)(message a := 0 + 1)) (Some a) (0 + 1) = Some e"
    and mem: "e = a \<or> e \<in> set as"
    using mainError_loop_some by blast
  have "mainError (a # as) = mainError_loop as ((\<lambda>_. 0)(message a := 0 + 1)) (Some a) (0 + 1)"
    unfolding mainError_def by (simp add: Let_def)
  with e mem Cons show ?thesis by auto
qed

lemma retry_attempts_exhausted:
  "\<forall>j\<le>n. fn (sts j) = (Inl (er j), sts (Suc j)) \<Longrightarrow>
   \<exists>e. retry_attempts n t errs ws fn (sts 0) = ((Inl e, ws @ replicate n t), sts (Suc n))
        \<and> (e \<in> set errs \<or> (\<exists>j\<le>n. e = er j))"
proof (induction n arbitrary: sts er errs ws)
  case 0
  then have first: "fn (sts 0) = (Inl (er 0), sts (Suc 0))" by simp
  from mainError_in [of "errs @ [er 0]"] obtain m where
    "m \<in> set (errs @ [er 0])" "mainError (errs @ [er 0]) = Some m" by auto
  with first show ?case by auto
next
  case (Suc n)
  then have first: "fn (sts 0) = (Inl (er 0), sts (Suc 0))" by simp
  have "\<exists>e. retry_attempts n t (errs @ [er 0]) (ws @ [t]) fn ((sts \<circ> Suc) 0)
            = ((Inl e, (ws @ [t]) @ replicate n t), (sts \<circ> Suc) (Suc n))
        \<and> (e \<in> set (errs @ [er 0]) \<or> (\<exists>j\<le>n. e = (er \<circ> Suc) j))"
  proof (rule Suc.IH)
    show "\<forall>j\<le>n. fn ((sts \<circ> Suc) j) = (Inl ((er \<circ> Suc) j), (sts \<circ> Suc) (Suc j))"
      using Suc.prems by simp
  qed
  then obtain e where
    e: "retry_attempts n t (errs @ [er 0]) (ws @ [t]) fn (sts (Suc 0))
          = ((Inl e, ws @ replicate (Suc n) t), sts (Suc (Suc n)))"
    and mem: "e \<in> set errs \<or> e = er 0 \<or> (\<exists>j\<le>n. e = er (Suc j))"
    by (auto simp: replicate_append_same)
  from mem have "e \<in> set errs \<or> (\<exists>j\<le>Suc n. e = er j)"
    by (metis Suc_le_mono le0)
  with e first show ?case by (simp del: replicate_Suc)
qed

text \<open>What every attempt preserves, the wrapper preserves.\<close>

lemma retry_attempts_invariant:
  "(\<And>s. P s \<Longrightarrow> P (snd (fn s))) \<Longrightarrow> P s \<Longrightarrow> P (snd (retry_attempts n t errs ws fn s))"
proof (induction n arbitrary: errs ws s)
  case 0
  from 0(1) [OF 0(2)] show ?case
    by (auto split: prod.splits sum.splits option.splits)
next
  case (Suc n)
  from Suc.prems(1) [OF Suc.prems(2)] have step: "P (snd (fn s))" .
  show ?case
  proof (cases "fn s")
    case (Pair res s')
    with step have s': "P s'" by simp
    show ?thesis
    proof (cases res)
      case (Inl e)
      with Pair Suc.IH [OF Suc.prems(1) s', of "errs @ [e]" "ws @ [t]"] show ?thesis by simp
    next
      case (Inr v)
      with Pair s' show ?thesis by simp
    qed
  qed
qed

text \<open>
  When every attempt appends one request to the log, the wrapper appends between one
  and \<open>n + 1\<close> copies of it.
\<close>

lemma retry_attempts_log:
  assumes "\<And>s. lg (snd (fn s)) = lg s @ [q]"
  shows "\<exists>m. 1 \<le> m \<and> m \<le> Suc n
           \<and> lg (snd (retry_attempts n t errs ws fn s)) = lg s @ replicate m q"
proof (induction n arbitrary: errs ws s)
  case 0
  show ?case
    using assms [of s]
    by (intro exI [of _ 1]) (auto split: prod.splits sum.splits option.splits)
next
  case (Suc n)
  show ?case
  proof (cases "fn s")
    case (Pair res s')
    with assms [of s] have s': "lg s' = lg s @ [q]" by simp
    show ?thesis
    proof (cases res)
      case (Inr v)
      with Pair s' show ?thesis by (intro exI [of _ 1]) simp
    next
      case (Inl e)
      from Suc.IH [of "errs @ [e]" "ws @ [t]" s'] obtain m where
        m: "1 \<le> m" "m \<le> Suc n"
          "lg (snd (retry_attempts n t (errs @ [e]) (ws @ [t]) fn s')) = lg s' @ replicate m q"
        by blast
      with Pair Inl s' show ?thesis
        by (intro exI [of _ "Suc m"]) (simp add: replicate_append_same)
    qed
  qed
qed

text \<open>A closure that issues one remote call and maps its result follows the policy.\<close>

lemma retriedCall_closure:
  "retriedCall n t c q g log
     (retry_attempts n t [] []
        (\<lambda>log. case call c q log of
                  (Inl e, l) \<Rightarrow> (Inl e, l)
                | (Inr r, l) \<Rightarrow> (Inr (g r), l)) log)"
proof -
  let ?fn = "\<lambda>log. case call c q log of
                  (Inl e, l) \<Rightarrow> (Inl e, l)
                | (Inr r, l) \<Rightarrow> (Inr (g r), l)"
  define sts where "sts j = log @ replicate j q" for j
  define er where "er j = (case c (length log + j) q of Inl e \<Rightarrow> e | Inr r \<Rightarrow> Error [])" for j
  have sts0: "sts 0 = log" by (simp add: sts_def)
  have throws: "?fn (sts j) = (Inl (er j), sts (Suc j))" if "c (length log + j) q = Inl e" for j e
    using that by (simp add: sts_def er_def call_def replicate_append_same)
  have returns: "?fn (sts j) = (Inr (g r), sts (Suc j))" if "c (length log + j) q = Inr r" for j r
    using that by (simp add: sts_def call_def replicate_append_same)
  have a: "retry_attempts n t [] [] ?fn log
      = ((Inr (g r), replicate k t), log @ replicate (Suc k) q)"
    if "k \<le> n" "\<forall>j<k. \<exists>e. c (length log + j) q = Inl e" "c (length log + k) q = Inr r" for k r
  proof -
    have "retry_attempts n t [] [] ?fn (sts 0) = ((Inr (g r), [] @ replicate k t), sts (Suc k))"
    proof (rule retry_attempts_eventually [where er = er and k = k])
      show "\<forall>j<k. ?fn (sts j) = (Inl (er j), sts (Suc j))" using that(2) throws by blast
      show "?fn (sts k) = (Inr (g r), sts (Suc k))" using that(3) returns by blast
      show "k \<le> n" by fact
    qed
    then show ?thesis by (simp add: sts_def)
  qed
  have b: "\<exists>j\<le>n. \<exists>e. c (length log + j) q = Inl e
                \<and> retry_attempts n t [] [] ?fn log
                    = ((Inl e, replicate n t), log @ replicate (Suc n) q)"
    if "\<forall>j\<le>n. \<exists>e. c (length log + j) q = Inl e"
  proof -
    have "\<forall>j\<le>n. ?fn (sts j) = (Inl (er j), sts (Suc j))" using that throws by blast
    from retry_attempts_exhausted [OF this, of t "[]" "[]"] obtain e where
      e: "retry_attempts n t [] [] ?fn (sts 0) = ((Inl e, [] @ replicate n t), sts (Suc n))"
      and "\<exists>j\<le>n. e = er j"
      by auto
    then obtain j where j: "j \<le> n" "e = er j" by blast
    with that obtain e' where "c (length log + j) q = Inl e'" by blast
    with j have "c (length log + j) q = Inl e" by (simp add: er_def)
    with e j show ?thesis by (auto simp: sts_def)
  qed
  show ?thesis
    unfolding retriedCall_def using a b by blast
qed

subsection \<open>The query of the pool\<close>

lemma query_structure:
  "getScratchOrgsByTag_query poolTag hubUsername isMyPool unAssigned =
     selectClause @ tagFilter poolTag @ activeFilter
       @ (if isMyPool then myPoolFilter hubUsername else [])
       @ (if unAssigned then unassignedFilter else [])
       @ '' ORDER BY CreatedDate ASC''"
  by (cases poolTag)
    (simp_all add: getScratchOrgsByTag_query_def selectClause_def tagFilter_def activeFilter_def
      myPoolFilter_def unassignedFilter_def ORDER_BY_FILTER_def Let_def)

text \<open>
  Claim C4.  The query of \<open>getScratchOrgsByTag\<close> filters on equality with the tag
  when a tag is given and on a non-null tag otherwise; the filter \<open>Status = 'Active'\<close>
  is always present; the filter on the allocation status being \<open>Available\<close> or
  \<open>In Progress\<close> is appended when the unassigned-only flag is set; the text ends with
  the ordering by creation date, ascending.  Every query the operation issues, on each
  of its one to four attempts, is this text.
\<close>

theorem pool_query_filters:
  "getScratchOrgsByTag_query poolTag hubUsername isMyPool unAssigned =
     selectClause @ tagFilter poolTag @ activeFilter
       @ (if isMyPool then myPoolFilter hubUsername else [])
       @ (if unAssigned then unassignedFilter else [])
       @ '' ORDER BY CreatedDate ASC''
   \<and> (\<exists>m. 1 \<le> m \<and> m \<le> 4 \<and>
         snd (getScratchOrgsByTag poolTag hubUsername isMyPool unAssigned hubConn log)
           = log @ replicate m
               (getScratchOrgsByTag_query poolTag hubUsername isMyPool unAssigned))"
proof -
  have "\<exists>m. 1 \<le> m \<and> m \<le> Suc 3 \<and>
      snd (retry_attempts 3 3000 [] []
             (\<lambda>log. call hubConn
                (getScratchOrgsByTag_query poolTag hubUsername isMyPool unAssigned) log) log)
        = log @ replicate m (getScratchOrgsByTag_query poolTag hubUsername isMyPool unAssigned)"
    using retry_attempts_log [where lg = "\<lambda>l. l" and n = 3 and t = 3000 and errs = "[]"
        and ws = "[]" and s = log
        and q = "getScratchOrgsByTag_query poolTag hubUsername isMyPool unAssigned"
        and fn = "\<lambda>log. call hubConn
                (getScratchOrgsByTag_query poolTag hubUsername isMyPool unAssigned) log"]
    by (simp add: call_def)
  then show ?thesis
    by (simp add: query_structure getScratchOrgsByTag_def retry_def)
qed

theorem pool_query_filters_witness:
  "getScratchOrgsByTag_query (Some ''core'') (Some ''hub@example.com'') False True =
     ''SELECT Pooltag__c, Id,  CreatedDate, ScratchOrg, ExpirationDate, SignupUsername, SignupEmail, Password__c, Allocation_status__c,LoginUrl,SfdxAuthUrl__c FROM ScratchOrgInfo WHERE Pooltag__c = 'core'  AND Status = 'Active' AND ( Allocation_status__c ='Available' OR Allocation_status__c = 'In Progress' )  ORDER BY CreatedDate ASC''
   \<and> getScratchOrgsByTag_query None (Some ''hub@example.com'') False False =
     ''SELECT Pooltag__c, Id,  CreatedDate, ScratchOrg, ExpirationDate, SignupUsername, SignupEmail, Password__c, Allocation_status__c,LoginUrl,SfdxAuthUrl__c FROM ScratchOrgInfo WHERE Pooltag__c != null  AND Status = 'Active'  ORDER BY CreatedDate ASC''"
  using pool_query_filters [of "Some ''core''" "Some ''hub@example.com''" False True]
    pool_query_filters [of None "Some ''hub@example.com''" False False]
  by (simp add: selectClause_def tagFilter_def activeFilter_def unassignedFilter_def)

subsection \<open>The status-set helper\<close>

lemma JSON_stringify_serialisable:
  "serialisable v \<Longrightarrow> JSON_stringify v = Inr ()"
  "serialisable_elements vs \<Longrightarrow> stringify_elements vs = Inr ()"
  "serialisable_properties kvs \<Longrightarrow> stringify_properties kvs = Inr ()"
  by (induction v and vs and kvs
      rule: JSON_stringify_stringify_elements_stringify_properties.induct) simp_all

lemma JSON_stringify_Inr:
  "JSON_stringify v = Inr u \<Longrightarrow> serialisable v"
  "stringify_elements vs = Inr u \<Longrightarrow> serialisable_elements vs"
  "stringify_properties kvs = Inr u \<Longrightarrow> serialisable_properties kvs"
  by (induction v and vs and kvs
      rule: JSON_stringify_stringify_elements_stringify_properties.induct)
    (auto split: sum.splits)

lemma JSON_stringify_TypeError:
  "JSON_stringify v = Inl e \<Longrightarrow> \<exists>m. e = TypeError m"
  "stringify_elements vs = Inl e \<Longrightarrow> \<exists>m. e = TypeError m"
  "stringify_properties kvs = Inl e \<Longrightarrow> \<exists>m. e = TypeError m"
  by (induction v and vs and kvs
      rule: JSON_stringify_stringify_elements_stringify_properties.induct)
    (auto split: sum.splits)

lemma JSON_stringify_throws:
  "\<not> serialisable v \<Longrightarrow> \<exists>m. JSON_stringify v = Inl (TypeError m)"
proof (cases "JSON_stringify v")
  case (Inl e)
  assume "\<not> serialisable v"
  from JSON_stringify_TypeError(1) [OF Inl] Inl show ?thesis by auto
next
  case (Inr u)
  assume "\<not> serialisable v"
  with JSON_stringify_Inr(1) [OF Inr] show ?thesis by simp
qed

text \<open>
  The closure of \<open>setScratchOrgInfo\<close> never throws, so the wrapper returns after its
  first attempt, without a wait.
\<close>

lemma setScratchOrgInfo_closure:
  "retry (\<lambda>log.
            case call update soInfo log of
              (Inl err, log') \<Rightarrow> (Inr False, log')
            | (Inr NoResult, log') \<Rightarrow> (Inr False, log')
            | (Inr (RecordResult success), log') \<Rightarrow> (Inr success, log')
            | (Inr (RecordResults rs), log') \<Rightarrow> (Inr True, log'))
     \<lparr>retries = 3, minTimeout = 3000\<rparr> log
   = ((Inr (case update (length log) soInfo of
              Inl err \<Rightarrow> False
            | Inr NoResult \<Rightarrow> False
            | Inr (RecordResult success) \<Rightarrow> success
            | Inr (RecordResults rs) \<Rightarrow> True), []),
      log @ [soInfo])"
  by (simp add: retry_def numeral_3_eq_3 call_def split: sum.splits UpdateResult.splits)

text \<open>
  A value that JSON cannot serialise makes the trace log before the wrapper throw: the
  \<open>TypeError\<close> goes to the caller and no update is issued.
\<close>

lemma setScratchOrgInfo_unserialisable:
  "\<not> serialisable soInfo \<Longrightarrow>
   \<exists>m. setScratchOrgInfo soInfo update log = ((Inl (TypeError m), []), log)"
  using JSON_stringify_throws [of soInfo]
  by (auto simp: setScratchOrgInfo_def)

text \<open>
  For instance a record that holds a reference to itself: the update is never issued.
\<close>

lemma setScratchOrgInfo_circular:
  "setScratchOrgInfo circularInfo update log
     = ((Inl (TypeError ''Converting circular structure to JSON''), []), log)"
  by (simp add: setScratchOrgInfo_def circularInfo_def)

text \<open>
  Claim C7.  For every record \<open>soInfo\<close> that JSON can serialise and every outcome of the
  update call, \<open>setScratchOrgInfo\<close> returns a boolean and never an error: \<open>false\<close>
  when the update throws (or resolves to nothing), the \<open>success\<close> flag of a single
  result, \<open>true\<close> for an array of results.  The update is issued once, without a wait.
\<close>

theorem status_set_never_throws:
  assumes "serialisable soInfo"
  shows "setScratchOrgInfo soInfo update log =
     ((Inr (case update (length log) soInfo of
              Inl err \<Rightarrow> False
            | Inr NoResult \<Rightarrow> False
            | Inr (RecordResult success) \<Rightarrow> success
            | Inr (RecordResults rs) \<Rightarrow> True), []),
      log @ [soInfo])"
  using JSON_stringify_serialisable(1) [OF assms]
  by (simp add: setScratchOrgInfo_def setScratchOrgInfo_closure)

theorem status_set_never_throws_witness:
  "serialisable assignedInfo
   \<and> setScratchOrgInfo assignedInfo (\<lambda>k i. Inl (RemoteError ''ECONNRESET'')) []
     = ((Inr False, []), [assignedInfo])
   \<and> setScratchOrgInfo assignedInfo (\<lambda>k i. Inr (RecordResult True)) []
     = ((Inr True, []), [assignedInfo])"
proof -
  have s: "serialisable assignedInfo" by (simp add: assignedInfo_def)
  show ?thesis
    using s status_set_never_throws [OF s, of "\<lambda>k i. Inl (RemoteError ''ECONNRESET'')" "[]"]
      status_set_never_throws [OF s, of "\<lambda>k i. Inr (RecordResult True)" "[]"]
    by simp
qed

subsection \<open>Provisioning\<close>

text \<open>
  Claim C5, as amended.  In every run of \<open>createScratchOrg\<close> that reaches the
  password-set step and gets no password from it, the operation fails and no scratch
  org is returned: with the error of the auth-url step when that step, which runs
  before the password is checked, throws, and with the explicit error
  \<open>Unable to setup password to scratch org\<close> otherwise.
\<close>

theorem no_password_no_scratch_org:
  assumes "createScratchOrgImpl_exec commands config hubUsername
             (''SO'' @ string_of_nat sequenceId) expiry adminEmail = Inr result"
    and "getScratchOrgLoginURL hubConn (result_username result) log = (Inr url, log')"
    and "passwordGenerateImpl_exec commands (result_username result) = Inr passwordData"
    and "\<not> truthy (passwordData_password passwordData)"
  shows "fst (createScratchOrg sequenceId adminEmail config expiry hubUsername commands
                hubConn log) =
     Inl (case authInfo_getSfdxAuthUrl commands (result_username result) of
            Inl e \<Rightarrow> e
          | Inr authUrl \<Rightarrow> Error ''Unable to setup password to scratch org'')"
  using assms
  by (simp add: createScratchOrg_def Let_def emptyScratchOrg_def split: sum.splits)

theorem no_password_no_scratch_org_witness:
  "fst (createScratchOrg 1 (Some ''admin@example.com'') ''config/project-scratch-def.json'' 7
        (Some ''hub@example.com'') noPasswordAuthOkCommands loginConn [])
       = Inl (Error ''Unable to setup password to scratch org'')"
  using no_password_no_scratch_org [of noPasswordAuthOkCommands "''config/project-scratch-def.json''"
      "Some ''hub@example.com''" 1 7 "Some ''admin@example.com''"
      "\<lparr>result_orgId = Some ''00D2xxxxxxxxxxxAAA'', result_username = Some ''test-so1@example.com''\<rparr>"
      loginConn "[]" "Some ''https://test.salesforce.com''"
      "[''SELECT Id, SignupUsername, LoginUrl FROM ScratchOrgInfo WHERE SignupUsername = 'test-so1@example.com'' @ [CHR 0x27]]"
      "\<lparr>passwordData_username = Some ''test-so1@example.com'', passwordData_password = None\<rparr>"]
  by (simp add: noPasswordAuthOkCommands_def createOk_def loginConn_def
      getScratchOrgLoginURL_def call_def loginRow_def Let_def)

text \<open>
  The claim as stated fails: the password-set step returns no password, the auth-url
  step throws, and the error of the operation is that of the auth-url step.
\<close>

theorem no_password_counterexample:
  "passwordGenerateImpl_exec noPasswordCommands (Some ''test-so1@example.com'')
     = Inr \<lparr>passwordData_username = Some ''test-so1@example.com'', passwordData_password = None\<rparr>
   \<and> fst (createScratchOrg 1 (Some ''admin@example.com'') ''config/project-scratch-def.json'' 7
        (Some ''hub@example.com'') noPasswordCommands loginConn [])
       = Inl (Error ''No AuthInfo found'')"
  by (simp add: createScratchOrg_def noPasswordCommands_def createOk_def loginConn_def
      getScratchOrgLoginURL_def call_def loginRow_def emptyScratchOrg_def Let_def)

subsection \<open>Record ids of a batch\<close>

lemma sliceOrgIds_ids:
  "\<forall>r. map_option (take 15) (orgId (h r)) = map_option (take 15) (orgId (h0 r)) \<Longrightarrow>
   \<forall>r \<in> set refs. orgId (h0 r) \<noteq> None \<Longrightarrow>
   fst (sliceOrgIds refs h) = Inr (map (\<lambda>r. quoted (take 15 (the (orgId (h0 r))))) refs)"
proof (induction refs arbitrary: h)
  case Nil
  then show ?case by simp
next
  case (Cons r refs)
  from Cons.prems obtain s0 where s0: "orgId (h0 r) = Some s0" by auto
  from Cons.prems(1) have "map_option (take 15) (orgId (h r)) = map_option (take 15) (orgId (h0 r))"
    by blast
  with s0 obtain s where s: "orgId (h r) = Some s" and ss: "take 15 s = take 15 s0"
    by (cases "orgId (h r)") auto
  let ?h' = "h(r := (h r)\<lparr>orgId := Some (take 15 s)\<rparr>)"
  have inv: "\<forall>r. map_option (take 15) (orgId (?h' r)) = map_option (take 15) (orgId (h0 r))"
    using Cons.prems(1) s s0 ss by simp
  have "fst (sliceOrgIds refs ?h') = Inr (map (\<lambda>r. quoted (take 15 (the (orgId (h0 r))))) refs)"
    using Cons.prems(2) by (intro Cons.IH [OF inv]) simp
  then obtain h2 where
    "sliceOrgIds refs ?h' = (Inr (map (\<lambda>r. quoted (take 15 (the (orgId (h0 r))))) refs), h2)"
    by (cases "sliceOrgIds refs ?h'") auto
  then show ?case
    using s s0 ss by (simp add: Let_def quoted_def)
qed

lemma sliceOrgIds_store:
  "\<forall>r \<in> set refs. orgId (h r) \<noteq> None \<Longrightarrow>
   snd (sliceOrgIds refs h) =
     (\<lambda>r. if r \<in> set refs then (h r)\<lparr>orgId := Some (take 15 (the (orgId (h r))))\<rparr> else h r)"
proof (induction refs arbitrary: h)
  case Nil
  then show ?case by simp
next
  case (Cons r refs)
  from Cons.prems obtain s where s: "orgId (h r) = Some s" by auto
  let ?h' = "h(r := (h r)\<lparr>orgId := Some (take 15 s)\<rparr>)"
  have some: "\<forall>x \<in> set refs. orgId (?h' x) \<noteq> None" using Cons.prems by simp
  have "snd (sliceOrgIds (r # refs) h) = snd (sliceOrgIds refs ?h')"
    using s by (simp add: Let_def split: prod.splits sum.splits)
  also have "\<dots> = (\<lambda>x. if x \<in> set refs then (?h' x)\<lparr>orgId := Some (take 15 (the (orgId (?h' x))))\<rparr> else ?h' x)"
    by (rule Cons.IH [OF some])
  also have "\<dots> = (\<lambda>x. if x \<in> set (r # refs) then (h x)\<lparr>orgId := Some (take 15 (the (orgId (h x))))\<rparr> else h x)"
    using s by (auto simp: fun_eq_iff)
  finally show ?case .
qed

lemma setRecordIds_store:
  "\<forall>x. (snd (setRecordIds refs obj h) x)\<lparr>recordId := recordId (h x)\<rparr> = h x"
proof (induction refs arbitrary: h)
  case Nil
  then show ?case by simp
next
  case (Cons r refs)
  show ?case
  proof (cases "obj (propertyKey (orgId (h r)))")
    case None
    then show ?thesis by simp
  next
    case (Some row)
    let ?h' = "h(r := (h r)\<lparr>recordId := Id' row\<rparr>)"
    let ?S = "snd (setRecordIds refs obj ?h')"
    from Cons.IH [of ?h'] have ih: "\<forall>x. (?S x)\<lparr>recordId := recordId (?h' x)\<rparr> = ?h' x" .
    have "(?S x)\<lparr>recordId := recordId (h x)\<rparr> = h x" for x
    proof (cases "x = r")
      case False
      with ih [rule_format, of x] show ?thesis by simp
    next
      case True
      from ih [rule_format, of r] have "(?S r)\<lparr>recordId := Id' row\<rparr> = (h r)\<lparr>recordId := Id' row\<rparr>"
        by simp
      then have "((?S r)\<lparr>recordId := Id' row\<rparr>)\<lparr>recordId := recordId (h r)\<rparr>
          = ((h r)\<lparr>recordId := Id' row\<rparr>)\<lparr>recordId := recordId (h r)\<rparr>"
        by (rule arg_cong)
      with True show ?thesis by simp
    qed
    with Some show ?thesis by simp
  qed
qed


lemma setRecordIds_outside:
  "x \<notin> set refs \<Longrightarrow> snd (setRecordIds refs obj h) x = h x"
  by (induction refs arbitrary: h) (auto split: option.splits)

text \<open>The closure of getScratchOrgRecordId appends its query to the log.\<close>

lemma recordId_attempt_log:
  "snd (snd ((\<lambda>(h2, log2).
        case call hubConn q log2 of
          (Inl e, log3) \<Rightarrow> (Inl e, (h2, log3))
        | (Inr results, log3) \<Rightarrow>
            (case setRecordIds refs (arrayToObject (records results) ScratchOrg) h2 of
               (Inl e, h3) \<Rightarrow> (Inl e, (h3, log3))
             | (Inr u, h3) \<Rightarrow> (Inr (Some results), (h3, log3)))) s))
   = snd s @ [q]"
  by (cases s) (auto simp: call_def split: prod.splits sum.splits)

lemma recordId_attempt_store:
  assumes "(\<forall>x. (fst s x)\<lparr>recordId := recordId (h1 x)\<rparr> = h1 x)
           \<and> (\<forall>x. x \<notin> set refs \<longrightarrow> fst s x = h1 x)"
  shows "(\<forall>x. (fst (snd ((\<lambda>(h2, log2).
        case call hubConn q log2 of
          (Inl e, log3) \<Rightarrow> (Inl e, (h2, log3))
        | (Inr results, log3) \<Rightarrow>
            (case setRecordIds refs (arrayToObject (records results) ScratchOrg) h2 of
               (Inl e, h3) \<Rightarrow> (Inl e, (h3, log3))
             | (Inr u, h3) \<Rightarrow> (Inr (Some results), (h3, log3)))) s)) x)
             \<lparr>recordId := recordId (h1 x)\<rparr> = h1 x)
     \<and> (\<forall>x. x \<notin> set refs \<longrightarrow> fst (snd ((\<lambda>(h2, log2).
        case call hubConn q log2 of
          (Inl e, log3) \<Rightarrow> (Inl e, (h2, log3))
        | (Inr results, log3) \<Rightarrow>
            (case setRecordIds refs (arrayToObject (records results) ScratchOrg) h2 of
               (Inl e, h3) \<Rightarrow> (Inl e, (h3, log3))
             | (Inr u, h3) \<Rightarrow> (Inr (Some results), (h3, log3)))) s)) x = h1 x)"
proof (cases s)
  case (Pair h2 log2)
  show ?thesis
  proof (cases "hubConn (length log2) q")
    case (Inl e)
    with Pair assms show ?thesis by (simp add: call_def)
  next
    case (Inr results)
    let ?obj = "arrayToObject (records results) ScratchOrg"
    let ?h3 = "snd (setRecordIds refs ?obj h2)"
    have a: "(?h3 x)\<lparr>recordId := recordId (h1 x)\<rparr> = h1 x" for x
    proof -
      from setRecordIds_store [where refs = refs and obj = ?obj and h = h2]
      have "(?h3 x)\<lparr>recordId := recordId (h2 x)\<rparr> = h2 x" by blast
      then have "((?h3 x)\<lparr>recordId := recordId (h2 x)\<rparr>)\<lparr>recordId := recordId (h1 x)\<rparr>
          = (h2 x)\<lparr>recordId := recordId (h1 x)\<rparr>"
        by (rule arg_cong)
      with assms Pair show ?thesis by simp
    qed
    have b: "x \<notin> set refs \<Longrightarrow> ?h3 x = h1 x" for x
      using setRecordIds_outside [where x = x and refs = refs and obj = ?obj and h = h2] assms Pair by simp
    have "fst (snd ((\<lambda>(h2, log2).
        case call hubConn q log2 of
          (Inl e, log3) \<Rightarrow> (Inl e, (h2, log3))
        | (Inr results, log3) \<Rightarrow>
            (case setRecordIds refs (arrayToObject (records results) ScratchOrg) h2 of
               (Inl e, h3) \<Rightarrow> (Inl e, (h3, log3))
             | (Inr u, h3) \<Rightarrow> (Inr (Some results), (h3, log3)))) s)) = ?h3"
      using Pair Inr by (simp add: call_def split: prod.splits sum.splits)
    with a b show ?thesis by simp
  qed
qed

lemma getScratchOrgRecordId_unfold:
  assumes "refs \<noteq> []" and "\<forall>r \<in> set refs. orgId (h r) \<noteq> None"
  shows "getScratchOrgRecordId (Some refs) hubConn (h, log) =
     retry_attempts 3 3000 [] []
       (\<lambda>(h2, log2).
          case call hubConn
                 (recordIdQuery (map (\<lambda>r. quoted (take 15 (the (orgId (h r))))) refs)) log2 of
            (Inl e, log3) \<Rightarrow> (Inl e, (h2, log3))
          | (Inr results, log3) \<Rightarrow>
              (case setRecordIds refs (arrayToObject (records results) ScratchOrg) h2 of
                 (Inl e, h3) \<Rightarrow> (Inl e, (h3, log3))
               | (Inr u, h3) \<Rightarrow> (Inr (Some results), (h3, log3))))
       (\<lambda>r. if r \<in> set refs then (h r)\<lparr>orgId := Some (take 15 (the (orgId (h r))))\<rparr> else h r,
        log)"
proof -
  have ids: "fst (sliceOrgIds refs h)
      = Inr (map (\<lambda>r. quoted (take 15 (the (orgId (h r))))) refs)"
    using sliceOrgIds_ids [of h h refs] assms(2) by simp
  have st: "snd (sliceOrgIds refs h)
      = (\<lambda>r. if r \<in> set refs then (h r)\<lparr>orgId := Some (take 15 (the (orgId (h r))))\<rparr> else h r)"
    by (rule sliceOrgIds_store [OF assms(2)])
  from ids st have "sliceOrgIds refs h =
      (Inr (map (\<lambda>r. quoted (take 15 (the (orgId (h r))))) refs),
       \<lambda>r. if r \<in> set refs then (h r)\<lparr>orgId := Some (take 15 (the (orgId (h r))))\<rparr> else h r)"
    by (simp add: prod_eq_iff)
  with assms(1) show ?thesis
    by (simp add: getScratchOrgRecordId_def retry_def)
qed

text \<open>
  Claim C6.  For every non-empty batch of scratch orgs that have an org identifier, the
  query that resolves the record ids, on each of its one to four attempts, lists every
  identifier cut to its first 15 characters, quoted, separated by commas.
\<close>

theorem record_id_query_truncates:
  assumes "refs \<noteq> []" and "\<forall>r \<in> set refs. orgId (h r) \<noteq> None"
  shows "\<exists>m. 1 \<le> m \<and> m \<le> 4 \<and>
     snd (snd (getScratchOrgRecordId (Some refs) hubConn (h, log))) =
       log @ replicate m
         (''SELECT Id, ScratchOrg FROM ScratchOrgInfo WHERE ScratchOrg IN ( ''
            @ join '','' (map (\<lambda>r. [CHR 0x27] @ take 15 (the (orgId (h r))) @ [CHR 0x27]) refs)
            @ '' )'')"
proof -
  let ?q = "recordIdQuery (map (\<lambda>r. quoted (take 15 (the (orgId (h r))))) refs)"
  let ?fn = "\<lambda>(h2, log2).
          case call hubConn ?q log2 of
            (Inl e, log3) \<Rightarrow> (Inl e, (h2, log3))
          | (Inr results, log3) \<Rightarrow>
              (case setRecordIds refs (arrayToObject (records results) ScratchOrg) h2 of
                 (Inl e, h3) \<Rightarrow> (Inl e, (h3, log3))
               | (Inr u, h3) \<Rightarrow> (Inr (Some results), (h3, log3)))"
  have "\<exists>m. 1 \<le> m \<and> m \<le> Suc 3 \<and>
      snd (snd (retry_attempts 3 3000 [] [] ?fn
        (\<lambda>r. if r \<in> set refs then (h r)\<lparr>orgId := Some (take 15 (the (orgId (h r))))\<rparr> else h r,
         log)))
      = snd (\<lambda>r. if r \<in> set refs then (h r)\<lparr>orgId := Some (take 15 (the (orgId (h r))))\<rparr> else h r,
         log) @ replicate m ?q"
    by (rule retry_attempts_log [where lg = snd and fn = ?fn]) (rule recordId_attempt_log)
  then show ?thesis
    by (simp add: getScratchOrgRecordId_unfold [OF assms] recordIdQuery_def quoted_def)
qed

theorem record_id_query_truncates_witness:
  "\<exists>m. 1 \<le> m \<and> m \<le> 4 \<and>
     snd (snd (getScratchOrgRecordId (Some [0, 1]) recordIdConn (callerStore, []))) =
       replicate m truncatedQuery"
  using record_id_query_truncates [of "[0, 1]" callerStore recordIdConn "[]"]
  by (simp add: callerStore_def poolOrg_def truncatedQuery_def)

text \<open>
  Claim C9, as amended.  \<open>getScratchOrgRecordId\<close> works on the caller's objects: after
  the call on a non-empty batch of scratch orgs that have an org identifier, the
  \<open>orgId\<close> of every object of the batch is its first 15 characters; no other field
  than \<open>orgId\<close> and \<open>recordId\<close> of an object has changed; and the objects outside
  the batch are unchanged.
\<close>

theorem record_id_resolution_mutates:
  assumes "refs \<noteq> []" and "\<forall>r \<in> set refs. orgId (h r) \<noteq> None"
  shows "(\<forall>r \<in> set refs.
            orgId (fst (snd (getScratchOrgRecordId (Some refs) hubConn (h, log))) r)
              = Some (take 15 (the (orgId (h r)))))
     \<and> onlyIdsChanged h (fst (snd (getScratchOrgRecordId (Some refs) hubConn (h, log))))
     \<and> (\<forall>r. r \<notin> set refs \<longrightarrow>
            fst (snd (getScratchOrgRecordId (Some refs) hubConn (h, log))) r = h r)"
proof -
  let ?q = "recordIdQuery (map (\<lambda>r. quoted (take 15 (the (orgId (h r))))) refs)"
  let ?fn = "\<lambda>(h2, log2).
          case call hubConn ?q log2 of
            (Inl e, log3) \<Rightarrow> (Inl e, (h2, log3))
          | (Inr results, log3) \<Rightarrow>
              (case setRecordIds refs (arrayToObject (records results) ScratchOrg) h2 of
                 (Inl e, h3) \<Rightarrow> (Inl e, (h3, log3))
               | (Inr u, h3) \<Rightarrow> (Inr (Some results), (h3, log3)))"
  let ?h1 = "\<lambda>r. if r \<in> set refs then (h r)\<lparr>orgId := Some (take 15 (the (orgId (h r))))\<rparr> else h r"
  let ?P = "\<lambda>s. (\<forall>x. (fst s x)\<lparr>recordId := recordId (?h1 x)\<rparr> = ?h1 x)
           \<and> (\<forall>x. x \<notin> set refs \<longrightarrow> fst s x = ?h1 x)"
  let ?h' = "fst (snd (retry_attempts 3 3000 [] [] ?fn (?h1, log)))"
  have "?P (snd (retry_attempts 3 3000 [] [] ?fn (?h1, log)))"
  proof (rule retry_attempts_invariant [where P = ?P and fn = ?fn])
    show "?P (?h1, log)" by simp
  next
    fix s :: "store \<times> string list" assume "?P s"
    then show "?P (snd (?fn s))"
      by (rule recordId_attempt_store [where ?h1.0 = ?h1])
  qed
  then have rec: "\<And>x. (?h' x)\<lparr>recordId := recordId (?h1 x)\<rparr> = ?h1 x"
    and out: "\<And>x. x \<notin> set refs \<Longrightarrow> ?h' x = ?h1 x"
    by blast+
  have org: "orgId (?h' x) = orgId (?h1 x)" for x
  proof -
    from rec [of x] have "orgId ((?h' x)\<lparr>recordId := recordId (?h1 x)\<rparr>) = orgId (?h1 x)"
      by (rule arg_cong)
    then show ?thesis by simp
  qed
  have only: "(?h' x)\<lparr>recordId := recordId (h x), orgId := orgId (h x)\<rparr> = h x" for x
  proof -
    have "recordId (?h1 x) = recordId (h x)" by simp
    with rec [of x] have "(?h' x)\<lparr>recordId := recordId (h x)\<rparr> = ?h1 x" by simp
    then have "((?h' x)\<lparr>recordId := recordId (h x)\<rparr>)\<lparr>orgId := orgId (h x)\<rparr>
        = (?h1 x)\<lparr>orgId := orgId (h x)\<rparr>"
      by (rule arg_cong)
    then show ?thesis by (simp split: if_splits)
  qed
  show ?thesis
    unfolding getScratchOrgRecordId_unfold [OF assms] onlyIdsChanged_def
    using org only out by simp
qed

theorem record_id_resolution_mutates_witness:
  "orgId (fst (snd (getScratchOrgRecordId (Some [0, 1]) recordIdConn (callerStore, []))) 0)
     = Some ''00D1''
   \<and> orgId (fst (snd (getScratchOrgRecordId (Some [0, 1]) recordIdConn (callerStore, []))) 1)
     = Some ''00D2xxxxxxxxxxx''
   \<and> fst (snd (getScratchOrgRecordId (Some [0, 1]) recordIdConn (callerStore, []))) 2
     = emptyScratchOrg"
  using record_id_resolution_mutates [of "[0, 1]" callerStore recordIdConn "[]"]
  by (simp add: callerStore_def poolOrg_def)

text \<open>
  The claim as stated fails: the object the caller passed with an 18-character
  \<open>orgId\<close> holds the 15-character prefix and a \<open>recordId\<close> after the call.
\<close>

theorem caller_values_mutated:
  "orgId (callerStore 1) = Some ''00D2xxxxxxxxxxxAAA''
   \<and> orgId (fst (snd (getScratchOrgRecordId (Some [0, 1]) recordIdConn (callerStore, []))) 1)
       = Some ''00D2xxxxxxxxxxx''
   \<and> recordId (fst (snd (getScratchOrgRecordId (Some [0, 1]) recordIdConn (callerStore, []))) 1)
       = Some ''2SR000000000002''"
  by (simp add: getScratchOrgRecordId_def callerStore_def poolOrg_def recordIdConn_def
      infoRow_def retry_def numeral_3_eq_3 call_def arrayToObject_def emptyScratchOrg_def
      Let_def)

subsection \<open>Retry policy of the remote calls\<close>

lemma call_closure: 
  "(\<lambda>log. call c q log) = (\<lambda>log. case call c q log of
                  (Inl e, l) \<Rightarrow> (Inl e, l)
                | (Inr r, l) \<Rightarrow> (Inr (id r), l))"
  by (auto simp: fun_eq_iff call_def split: sum.splits)

lemma getScratchOrgsByTag_retried:
  "retriedCall 3 3000 hubConn
     (getScratchOrgsByTag_query poolTag hubUsername isMyPool unAssigned) id log
     (getScratchOrgsByTag poolTag hubUsername isMyPool unAssigned hubConn log)"
  unfolding getScratchOrgsByTag_def retry_def
  by (subst call_closure) (simp add: retriedCall_closure)

lemma deleteScratchOrg_retried:
  "retriedCall 3 3000 del scratchOrgIds (\<lambda>r. ()) log (deleteScratchOrg scratchOrgIds del log)"
  unfolding deleteScratchOrg_def retry_def
  by (simp add: retriedCall_closure)

lemma QueryHelper_plain:
  "retry_attempts n t errs ws
       (\<lambda>(log, toolingLog).
              case call conn_query query log of
                (Inl e, log') \<Rightarrow> (Inl e, (log', toolingLog))
              | (Inr result, log') \<Rightarrow> (Inr (records result), (log', toolingLog)))
       (log, toolingLog)
   = (case retry_attempts n t errs ws
        (\<lambda>log. case call conn_query query log of
                  (Inl e, l) \<Rightarrow> (Inl e, l)
                | (Inr r, l) \<Rightarrow> (Inr (records r), l)) log of
        (res, l) \<Rightarrow> (res, (l, toolingLog)))"
  by (induction n arbitrary: errs ws log)
    (auto simp: call_def split: sum.splits option.splits)

lemma QueryHelper_tooling:
  "retry_attempts n t errs ws
       (\<lambda>(log, toolingLog).
              case call conn_tooling_query query toolingLog of
                (Inl e, toolingLog') \<Rightarrow> (Inl e, (log, toolingLog'))
              | (Inr result, toolingLog') \<Rightarrow> (Inr (records result), (log, toolingLog')))
       (log, toolingLog)
   = (case retry_attempts n t errs ws
        (\<lambda>log. case call conn_tooling_query query log of
                  (Inl e, l) \<Rightarrow> (Inl e, l)
                | (Inr r, l) \<Rightarrow> (Inr (records r), l)) toolingLog of
        (res, l) \<Rightarrow> (res, (log, l)))"
  by (induction n arbitrary: errs ws toolingLog)
    (auto simp: call_def split: sum.splits option.splits)

lemma QueryHelper_query_retried:
  "retriedCall 3 2000 conn_query query records log
     (case QueryHelper_query query conn_query conn_tooling_query False (log, toolingLog) of
        (res, (l, t)) \<Rightarrow> (res, l))
   \<and> snd (snd (QueryHelper_query query conn_query conn_tooling_query False (log, toolingLog)))
       = toolingLog
   \<and> retriedCall 3 2000 conn_tooling_query query records toolingLog
     (case QueryHelper_query query conn_query conn_tooling_query True (log, toolingLog) of
        (res, (l, t)) \<Rightarrow> (res, t))
   \<and> fst (snd (QueryHelper_query query conn_query conn_tooling_query True (log, toolingLog)))
       = log"
proof -
  let ?plain = "retry_attempts 3 2000 [] []
        (\<lambda>log. case call conn_query query log of
                  (Inl e, l) \<Rightarrow> (Inl e, l)
                | (Inr r, l) \<Rightarrow> (Inr (records r), l)) log"
  let ?tooling = "retry_attempts 3 2000 [] []
        (\<lambda>log. case call conn_tooling_query query log of
                  (Inl e, l) \<Rightarrow> (Inl e, l)
                | (Inr r, l) \<Rightarrow> (Inr (records r), l)) toolingLog"
  have p: "QueryHelper_query query conn_query conn_tooling_query False (log, toolingLog)
      = (fst ?plain, (snd ?plain, toolingLog))"
    unfolding QueryHelper_query_def retry_def
    by (simp add: QueryHelper_plain split: prod.splits)
  have t: "QueryHelper_query query conn_query conn_tooling_query True (log, toolingLog)
      = (fst ?tooling, (log, snd ?tooling))"
    unfolding QueryHelper_query_def retry_def
    by (simp add: QueryHelper_tooling split: prod.splits)
  show ?thesis
    using retriedCall_closure [of 3 2000 conn_query query records log]
      retriedCall_closure [of 3 2000 conn_tooling_query query records toolingLog]
    by (simp add: p t)
qed

lemma checkForPrerequisites_exhausted:
  assumes "\<forall>j\<le>3. \<exists>e. describe j () = Inl e"
  shows "\<exists>j\<le>3. \<exists>e. describe j () = Inl e
     \<and> checkForPrerequisites describe (initialStatics, [])
         = ((Inl e, replicate 3 30000), (initialStatics, replicate 4 ()))"
proof -
  define er where "er j = (case describe j () of Inl e \<Rightarrow> e | Inr x \<Rightarrow> Error [])" for j
  define sts :: "nat \<Rightarrow> checkState"
    where "sts j = (initialStatics, replicate j (), False, [])" for j
  have step: "\<forall>j\<le>3. describeAttempt describe (sts j) = (Inl (er j), sts (Suc j))"
  proof (intro allI impI)
    fix j :: nat assume "j \<le> 3"
    with assms obtain e where e: "describe j () = Inl e" by blast
    then have "er j = e" by (simp add: er_def)
    with e show "describeAttempt describe (sts j) = (Inl (er j), sts (Suc j))"
      using describeAttempt_throws [of describe "replicate j ()" e initialStatics False "[]"]
      by (simp add: sts_def replicate_append_same)
  qed
  from retry_attempts_exhausted [OF step, of 30000 "[]" "[]"] obtain e where
    e: "retry_attempts 3 30000 [] [] (describeAttempt describe) (sts 0)
          = ((Inl e, [] @ replicate 3 30000), sts (Suc 3))"
    and "\<exists>j\<le>3. e = er j"
    by auto
  then obtain j where j: "j \<le> 3" "e = er j" by blast
  with assms obtain e' where "describe j () = Inl e'" by blast
  with j have d: "describe j () = Inl e" by (simp add: er_def)
  have four: "replicate (Suc 3) () = replicate 4 ()" by (simp add: numeral_eq_Suc)
  have r: "retry (describeAttempt describe) \<lparr>retries = 3, minTimeout = 30000\<rparr>
        (initialStatics, [], False, [])
      = ((Inl e, replicate 3 30000), (initialStatics, replicate 4 (), False, []))"
    using e four by (simp add: retry_def sts_def del: replicate_Suc)
  have "checkForPrerequisites describe (initialStatics, [])
         = ((Inl e, replicate 3 30000), (initialStatics, replicate 4 ()))"
    using initialStatics_unchecked
    unfolding checkForPrerequisites_def
    by (simp add: r del: replicate_Suc)
  with j d show ?thesis by blast
qed

lemma checkForPrerequisites_calls:
  assumes "k \<le> 3" and "\<forall>j<k. \<exists>e. describe j () = Inl e" and "describe k () = Inr dr"
  shows "snd (fst (checkForPrerequisites describe (initialStatics, []))) = replicate k 30000
     \<and> snd (snd (checkForPrerequisites describe (initialStatics, []))) = replicate (Suc k) ()"
  using checkForPrerequisites_memoizes [of k describe dr, OF assms(2,3,1)]
  by auto

lemma setScratchOrgInfo_once:
  "snd (fst (setScratchOrgInfo soInfo update log)) = []
   \<and> snd (setScratchOrgInfo soInfo update log)
       = (if serialisable soInfo then log @ [soInfo] else log)"
proof (cases "serialisable soInfo")
  case True
  from JSON_stringify_serialisable(1) [OF True] show ?thesis
    using True by (simp add: setScratchOrgInfo_def setScratchOrgInfo_closure)
next
  case False
  from setScratchOrgInfo_unserialisable [OF False, of update log] show ?thesis
    using False by auto
qed

text \<open>
  Claim C8, as amended.  The remote calls of \<open>QueryHelper.query\<close> (plain and tooling),
  of \<open>getScratchOrgsByTag\<close>, of \<open>deleteScratchOrg\<close> and the schema describe of the
  prerequisite check are wrapped in a retry of 3 retries with a minimum wait before
  each retry of 2 seconds for the queries of \<open>QueryHelper\<close>, 3 seconds for the row fetch
  and the delete, and 30 seconds for the schema describe: a call that throws is issued
  again after the wait, up to 4 attempts in all; the first attempt that returns gives
  the result; when all 4 attempts throw, the error of one of them propagates unchanged.
  Not every remote call is retried: \<open>setScratchOrgInfo\<close> issues its update at most
  once and never waits, and the login-URL query of \<open>createScratchOrg\<close> is issued once,
  its error propagating at once.
\<close>

theorem remote_calls_retry_policy:
  "retriedCall 3 2000 conn_query query records log
     (case QueryHelper_query query conn_query conn_tooling_query False (log, toolingLog) of
        (res, (l, t)) \<Rightarrow> (res, l))
   \<and> retriedCall 3 2000 conn_tooling_query query records toolingLog
     (case QueryHelper_query query conn_query conn_tooling_query True (log, toolingLog) of
        (res, (l, t)) \<Rightarrow> (res, t))
   \<and> retriedCall 3 3000 hubConn
       (getScratchOrgsByTag_query poolTag hubUsername isMyPool unAssigned)
       id hubLog (getScratchOrgsByTag poolTag hubUsername isMyPool unAssigned hubConn hubLog)
   \<and> retriedCall 3 3000 del scratchOrgIds (\<lambda>r. ()) delLog
       (deleteScratchOrg scratchOrgIds del delLog)
   \<and> (\<forall>k\<le>3. (\<forall>j<k. \<exists>e. describe j () = Inl e) \<longrightarrow>
         (\<forall>dr. describe k () = Inr dr \<longrightarrow>
            snd (fst (checkForPrerequisites describe (initialStatics, [])))
              = replicate k 30000
            \<and> snd (snd (checkForPrerequisites describe (initialStatics, [])))
              = replicate (Suc k) ()))
   \<and> ((\<forall>j\<le>3. \<exists>e. describe j () = Inl e) \<longrightarrow>
        (\<exists>j\<le>3. \<exists>e. describe j () = Inl e
           \<and> checkForPrerequisites describe (initialStatics, [])
               = ((Inl e, replicate 3 30000), (initialStatics, replicate 4 ()))))
   \<and> snd (fst (setScratchOrgInfo soInfo update updateLog)) = []
   \<and> snd (setScratchOrgInfo soInfo update updateLog)
       = (if serialisable soInfo then updateLog @ [soInfo] else updateLog)
   \<and> (\<exists>q. snd (getScratchOrgLoginURL hubConn user hubLog) = hubLog @ [q]
          \<and> (\<forall>e. hubConn (length hubLog) q = Inl e \<longrightarrow>
                fst (getScratchOrgLoginURL hubConn user hubLog) = Inl e))"
proof -
  have login: "\<exists>q. snd (getScratchOrgLoginURL hubConn user hubLog) = hubLog @ [q]
          \<and> (\<forall>e. hubConn (length hubLog) q = Inl e \<longrightarrow>
                fst (getScratchOrgLoginURL hubConn user hubLog) = Inl e)"
    by (auto simp: getScratchOrgLoginURL_def call_def Let_def split: sum.splits list.splits)
  show ?thesis
    using QueryHelper_query_retried [of conn_query query log conn_tooling_query toolingLog]
      getScratchOrgsByTag_retried [of hubConn poolTag hubUsername isMyPool unAssigned hubLog]
      deleteScratchOrg_retried [of del scratchOrgIds delLog]
      checkForPrerequisites_calls [of _ describe]
      checkForPrerequisites_exhausted [of describe]
      setScratchOrgInfo_once [of soInfo update updateLog]
      login
    by blast
qed

theorem remote_calls_retry_policy_witness:
  "getScratchOrgsByTag (Some ''core'') None False True twiceFailingConn []
     = ((Inr \<lparr>records = [queryRow], totalSize = 1\<rparr>, [3000, 3000]),
        replicate 3 (getScratchOrgsByTag_query (Some ''core'') None False True))
   \<and> snd (fst (checkForPrerequisites flakyDescribe (initialStatics, []))) = [30000]
   \<and> snd (snd (checkForPrerequisites flakyDescribe (initialStatics, []))) = [(), ()]
   \<and> checkForPrerequisites failingDescribe (initialStatics, [])
       = ((Inl (RemoteError ''ECONNRESET''), replicate 3 30000),
          (initialStatics, replicate 4 ()))"
proof -
  have "retriedCall 3 3000 twiceFailingConn
       (getScratchOrgsByTag_query (Some ''core'') None False True)
       id [] (getScratchOrgsByTag (Some ''core'') None False True twiceFailingConn [])"
    by (rule remote_calls_retry_policy [where hubConn = twiceFailingConn
        and poolTag = "Some ''core''" and hubUsername = None and isMyPool = False
        and unAssigned = True and hubLog = "[]", THEN conjunct2, THEN conjunct2, THEN conjunct1])
  then have "(\<forall>j<2. \<exists>e. twiceFailingConn (length ([]::string list) + j)
                 (getScratchOrgsByTag_query (Some ''core'') None False True) = Inl e) \<longrightarrow>
         (\<forall>r. twiceFailingConn (length ([]::string list) + 2)
                 (getScratchOrgsByTag_query (Some ''core'') None False True) = Inr r \<longrightarrow>
              getScratchOrgsByTag (Some ''core'') None False True twiceFailingConn []
                = ((Inr (id r), replicate 2 3000), [] @ replicate (Suc 2)
                     (getScratchOrgsByTag_query (Some ''core'') None False True)))"
    unfolding retriedCall_def by (elim conjE allE [of _ 2]) simp
  then have a: "getScratchOrgsByTag (Some ''core'') None False True twiceFailingConn []
     = ((Inr \<lparr>records = [queryRow], totalSize = 1\<rparr>, [3000, 3000]),
        replicate 3 (getScratchOrgsByTag_query (Some ''core'') None False True))"
    by (simp add: twiceFailingConn_def numeral_3_eq_3 numeral_2_eq_2)
  have "(\<forall>k\<le>3. (\<forall>j<k. \<exists>e. flakyDescribe j () = Inl e) \<longrightarrow>
         (\<forall>dr. flakyDescribe k () = Inr dr \<longrightarrow>
            snd (fst (checkForPrerequisites flakyDescribe (initialStatics, [])))
              = replicate k 30000
            \<and> snd (snd (checkForPrerequisites flakyDescribe (initialStatics, [])))
              = replicate (Suc k) ()))"
    by (rule remote_calls_retry_policy [where describe = flakyDescribe,
          THEN conjunct2, THEN conjunct2, THEN conjunct2, THEN conjunct2, THEN conjunct1])
  then have "(\<forall>j<1. \<exists>e. flakyDescribe j () = Inl e) \<longrightarrow>
         (\<forall>dr. flakyDescribe 1 () = Inr dr \<longrightarrow>
            snd (fst (checkForPrerequisites flakyDescribe (initialStatics, [])))
              = replicate 1 30000
            \<and> snd (snd (checkForPrerequisites flakyDescribe (initialStatics, [])))
              = replicate (Suc 1) ())"
    by (elim allE [of _ 1]) simp
  then have b: "snd (fst (checkForPrerequisites flakyDescribe (initialStatics, []))) = [30000]
   \<and> snd (snd (checkForPrerequisites flakyDescribe (initialStatics, []))) = [(), ()]"
    by (simp add: flakyDescribe_def)
  have "((\<forall>j\<le>3. \<exists>e. failingDescribe j () = Inl e) \<longrightarrow>
        (\<exists>j\<le>3. \<exists>e. failingDescribe j () = Inl e
           \<and> checkForPrerequisites failingDescribe (initialStatics, [])
               = ((Inl e, replicate 3 30000), (initialStatics, replicate 4 ()))))"
    by (rule remote_calls_retry_policy [where describe = failingDescribe,
          THEN conjunct2, THEN conjunct2, THEN conjunct2, THEN conjunct2, THEN conjunct2,
          THEN conjunct1])
  then have c: "checkForPrerequisites failingDescribe (initialStatics, [])
       = ((Inl (RemoteError ''ECONNRESET''), replicate 3 30000),
          (initialStatics, replicate 4 ()))"
    by (auto simp: failingDescribe_def)
  from a b c show ?thesis by simp
qed

text \<open>
  The claim as stated fails.  The login-URL query of \<open>createScratchOrg\<close> throws once,
  would return on a second attempt, and the operation fails after this one call.  And
  the attempts of a wrapped call are four, not three: \<open>getScratchOrgsByTag\<close> returns
  the rows that the fourth query gives after three that throw.
\<close>

theorem retry_policy_counterexample:
  "createScratchOrg 1 (Some ''admin@example.com'') ''config/project-scratch-def.json'' 7
        (Some ''hub@example.com'') goodCommands flakyConn []
     = (Inl (RemoteError ''ECONNRESET''),
        [''SELECT Id, SignupUsername, LoginUrl FROM ScratchOrgInfo WHERE SignupUsername = 'test-so1@example.com'' @ [CHR 0x27]])
   \<and> getScratchOrgsByTag (Some ''core'') None False True thriceFailingConn []
     = ((Inr \<lparr>records = [queryRow], totalSize = 1\<rparr>, [3000, 3000, 3000]),
        replicate 4 (getScratchOrgsByTag_query (Some ''core'') None False True))"
proof -
  have "createScratchOrg 1 (Some ''admin@example.com'') ''config/project-scratch-def.json'' 7
        (Some ''hub@example.com'') goodCommands flakyConn []
     = (Inl (RemoteError ''ECONNRESET''),
        [''SELECT Id, SignupUsername, LoginUrl FROM ScratchOrgInfo WHERE SignupUsername = 'test-so1@example.com'' @ [CHR 0x27]])"
    by (simp add: createScratchOrg_def goodCommands_def createOk_def flakyConn_def
        getScratchOrgLoginURL_def call_def emptyScratchOrg_def Let_def)
  moreover have "getScratchOrgsByTag (Some ''core'') None False True thriceFailingConn []
     = ((Inr \<lparr>records = [queryRow], totalSize = 1\<rparr>, [3000, 3000, 3000]),
        replicate 4 (getScratchOrgsByTag_query (Some ''core'') None False True))"
    by (simp add: getScratchOrgsByTag_def retry_def call_def thriceFailingConn_def
        numeral_eq_Suc)
  ultimately show ?thesis by simp
qed

end
